theory Spec2Isabelle
  imports Complex_Main "HOL-Library.Word" "HOL-Library.Log_Nat"
begin

section \<open>Go's numeric types\<close>

text \<open>
  \<open>int64\<close> is a 64-bit word; \<open>+\<close> and \<open>*\<close> wrap around as Go's do and
  \<open>sint\<close> reads the two's-complement value, so Go's \<open>a < b\<close> on \<open>int64\<close>
  is \<open>sint a < sint b\<close>.
\<close>

type_synonym int64 = "64 word"

text \<open>
  \<open>float64\<close> is IEEE 754 binary64.  A value is a NaN, an infinity with its sign, or a
  finite number given by its sign bit (\<open>True\<close> is negative) and its magnitude, the
  absolute value of a rational; \<open>Finite True 0\<close> is the negative zero.  Results of
  arithmetic are rounded to the nearest representable magnitude, ties to even, over 53
  bits of precision with exponents from \<open>-1074\<close> (subnormals), and overflow to
  infinity when the rounded magnitude reaches \<open>2^1024\<close>.
\<close>

datatype f64 = Finite bool rat | Infinity bool | NaN

definition pow2 :: "int \<Rightarrow> rat" where
  "pow2 k = (if 0 \<le> k then 2 ^ nat k else 1 / 2 ^ nat (- k))"

definition floor_log2 :: "rat \<Rightarrow> int" where
  \<comment> \<open>for \<open>0 < q\<close>: the \<open>k\<close> with \<open>2^k \<le> q < 2^(k+1)\<close>\<close>
  "floor_log2 q =
     (let (a, b) = quotient_of q; k = bitlen a - bitlen b
      in if pow2 k \<le> q then k else k - 1)"

definition round_half_even :: "rat \<Rightarrow> int" where
  "round_half_even q =
     (let f = \<lfloor>q\<rfloor>; d = q - of_int f
      in if d < 1 / 2 then f else if 1 / 2 < d then f + 1 else if even f then f else f + 1)"

definition round_f64 :: "bool \<Rightarrow> rat \<Rightarrow> f64" where
  \<comment> \<open>the binary64 value of sign \<open>s\<close> nearest to the magnitude \<open>\<bar>q\<bar>\<close>\<close>
  "round_f64 s q =
     (if q = 0 then Finite s 0
      else let e = max (floor_log2 \<bar>q\<bar> - 52) (- 1074);
               r = of_int (round_half_even (\<bar>q\<bar> / pow2 e)) * pow2 e
           in if pow2 1024 \<le> r then Infinity s else Finite s r)"

definition signed :: "bool \<Rightarrow> rat \<Rightarrow> rat" where
  \<comment> \<open>the number a sign bit and a magnitude stand for\<close>
  "signed s m = (if s then - \<bar>m\<bar> else \<bar>m\<bar>)"

fun f64_neg :: "f64 \<Rightarrow> f64" where
  "f64_neg (Finite s m) = Finite (\<not> s) m"
| "f64_neg (Infinity s) = Infinity (\<not> s)"
| "f64_neg NaN = NaN"

fun f64_add :: "f64 \<Rightarrow> f64 \<Rightarrow> f64" where
  "f64_add (Finite s a) (Finite t b) =
     (let r = signed s a + signed t b
      in if r = 0 then Finite (s \<and> t) 0 else round_f64 (r < 0) \<bar>r\<bar>)"
| "f64_add (Finite s a) (Infinity t) = Infinity t"
| "f64_add (Infinity s) (Finite t b) = Infinity s"
| "f64_add (Infinity s) (Infinity t) = (if s = t then Infinity s else NaN)"
| "f64_add NaN y = NaN"
| "f64_add (Finite s a) NaN = NaN"
| "f64_add (Infinity s) NaN = NaN"

definition f64_sub :: "f64 \<Rightarrow> f64 \<Rightarrow> f64" where
  "f64_sub x y = f64_add x (f64_neg y)"

fun f64_div :: "f64 \<Rightarrow> f64 \<Rightarrow> f64" where
  "f64_div (Finite s a) (Finite t b) =
     (if b = 0 then (if a = 0 then NaN else Infinity (s \<noteq> t))
      else round_f64 (s \<noteq> t) (a / b))"
| "f64_div (Finite s a) (Infinity t) = Finite (s \<noteq> t) 0"
| "f64_div (Infinity s) (Finite t b) = Infinity (s \<noteq> t)"
| "f64_div (Infinity s) (Infinity t) = NaN"
| "f64_div NaN y = NaN"
| "f64_div (Finite s a) NaN = NaN"
| "f64_div (Infinity s) NaN = NaN"

text \<open>Go's \<open><\<close> and \<open><=\<close> on \<open>float64\<close>: false whenever an operand is a NaN.\<close>

fun f64_lt :: "f64 \<Rightarrow> f64 \<Rightarrow> bool" where
  "f64_lt (Finite s a) (Finite t b) = (signed s a < signed t b)"
| "f64_lt (Finite s a) (Infinity t) = (\<not> t)"
| "f64_lt (Infinity s) (Finite t b) = s"
| "f64_lt (Infinity s) (Infinity t) = (s \<and> \<not> t)"
| "f64_lt NaN y = False"
| "f64_lt (Finite s a) NaN = False"
| "f64_lt (Infinity s) NaN = False"

fun f64_le :: "f64 \<Rightarrow> f64 \<Rightarrow> bool" where
  "f64_le (Finite s a) (Finite t b) = (signed s a \<le> signed t b)"
| "f64_le (Finite s a) (Infinity t) = (\<not> t)"
| "f64_le (Infinity s) (Finite t b) = s"
| "f64_le (Infinity s) (Infinity t) = (s \<or> \<not> t)"
| "f64_le NaN y = False"
| "f64_le (Finite s a) NaN = False"
| "f64_le (Infinity s) NaN = False"

definition f64_of_int64 :: "int64 \<Rightarrow> f64" where
  \<comment> \<open>the conversion \<open>float64(n)\<close>\<close>
  "f64_of_int64 n = round_f64 (sint n < 0) (of_int \<bar>sint n\<bar>)"

definition f64_of_int :: "int \<Rightarrow> f64" where
  \<comment> \<open>an integer constant or test value as a \<open>float64\<close>\<close>
  "f64_of_int n = round_f64 (n < 0) (of_int \<bar>n\<bar>)"

definition is_zero :: "f64 \<Rightarrow> bool" where
  "is_zero x = (case x of Finite s m \<Rightarrow> m = 0 | Infinity s \<Rightarrow> False | NaN \<Rightarrow> False)"

definition is_finite :: "f64 \<Rightarrow> bool" where
  "is_finite x = (case x of Finite s m \<Rightarrow> True | Infinity s \<Rightarrow> False | NaN \<Rightarrow> False)"

section \<open>The collaborators of the breakers\<close>

text \<open>
  The resource registry (\<open>stat.GetResourceNode\<close>), the sliding-window metric behind
  \<open>base.ReadStat\<close>, the logger and the rule types are declared outside
  \<open>circuit_breaker.go\<close>.  Nodes and metric sources are handles; what the registry
  answers and what a metric source reads at the moment of a call is the \<open>world\<close> the
  call runs in.
\<close>

type_synonym node = nat
type_synonym readStat = nat

datatype metricEvent =
  MetricEventPass | MetricEventBlock | MetricEventError | MetricEventComplete

record world =
  GetResourceNode :: "string \<Rightarrow> node option"
  GetOrCreateSlidingWindowMetric :: "node \<Rightarrow> 32 word \<Rightarrow> 32 word \<Rightarrow> readStat"
  AvgRT :: "readStat \<Rightarrow> f64"
  GetQPS :: "readStat \<Rightarrow> metricEvent \<Rightarrow> f64"

text \<open>
  Modelled from the spec: the rule types \<open>averageRtRule\<close>, \<open>errorRatioRule\<close> and
  \<open>errorCountRule\<close> (section 6, "Rule shape").  The field types are the ones the
  uses in \<open>circuit_breaker.go\<close> need: \<open>Threshold\<close> is compared with a
  \<open>float64\<close> unconverted in the latency and ratio strategies and converted by
  \<open>float64(...)\<close> in the count strategy; \<open>RtSlowRequestAmount\<close> is compared with
  an \<open>int64\<close>; \<open>MinRequestAmount\<close> and \<open>RecoverTimeout\<close> are converted from an
  integer type, taken to be \<open>int64\<close>.
\<close>

record ruleBase =
  Resource :: string
  SampleCount :: "32 word"
  IntervalInMs :: "32 word"
  RecoverTimeout :: int64

record averageRtRule = ruleBase +
  Threshold :: f64
  RtSlowRequestAmount :: int64

record errorRatioRule = ruleBase +
  Threshold :: f64
  MinRequestAmount :: int64

record errorCountRule = ruleBase +
  Threshold :: int64

text \<open>
  What a call does besides returning: its calls to the registry, the metric source and
  the logger, its writes to the breaker's atomic fields, the division of the ratio
  strategy, and the goroutine it starts, in program order.
\<close>

datatype task = RecoverTask (sleep: int64) (resetPassCount: bool)

datatype effect =
  CallGetResourceNode string
| CallGetOrCreateSlidingWindowMetric node "32 word" "32 word"
| LogErrorf string "string list"
| ReadAvgRT readStat
| ReadQPS readStat metricEvent
| StorePassCount int64
| IncrementPassCount
| Divide f64 f64
| CutCompareAndSet bool bool bool
| CutSet bool
| Go task

section \<open>The breakers\<close>

text \<open>
  The three breaker structs have the same fields and differ in the type of the rule.
  \<open>rule\<close> and \<open>metric\<close> are \<open>None\<close> for Go's \<open>nil\<close>.
\<close>

record 'r breaker =
  cut :: bool
  passCount :: int64
  rule :: "'r option"
  metric :: "readStat option"

type_synonym averageRtCircuitBreaker = "averageRtRule breaker"
type_synonym errorRatioCircuitBreaker = "errorRatioRule breaker"
type_synonym errorCountCircuitBreaker = "errorCountRule breaker"

text \<open>
  Modelled from the spec: \<open>util.AtomicBool\<close> and \<open>util.IncrementAndGetInt64\<close>
  (section 5: the indicator and the counter are "manipulated exclusively through atomic
  primitives (compare-and-swap / atomic increment / atomic store)").
  \<open>CompareAndSet old new\<close> returns whether it swapped, and the value it leaves.
\<close>

definition CompareAndSet :: "bool \<Rightarrow> bool \<Rightarrow> bool \<Rightarrow> bool \<times> bool" where
  "CompareAndSet old new c = (if c = old then (True, new) else (False, c))"

definition IncrementAndGetInt64 :: "int64 \<Rightarrow> int64" where
  "IncrementAndGetInt64 v = v + 1"

definition time_Second :: int64 where
  \<comment> \<open>\<open>time.Second\<close>, a \<open>time.Duration\<close>: an \<open>int64\<close> count of nanoseconds\<close>
  "time_Second = 1000000000"

subsection \<open>Construction and \<open>getRule\<close>\<close>

text \<open>
  \<open>newAverageRtCircuitBreaker\<close> and its two siblings read \<open>rule.Resource\<close> first:
  on a nil rule they panic (\<open>None\<close>).
\<close>

definition newBreaker :: "world \<Rightarrow> ('a ruleBase_scheme) option \<Rightarrow> (('a ruleBase_scheme) breaker \<times> effect list) option" where
  "newBreaker w rl =
     (case rl of
        None \<Rightarrow> None
      | Some r \<Rightarrow>
          (case GetResourceNode w (Resource r) of
             None \<Rightarrow>
               Some (\<lparr>cut = False, passCount = 0, rule = rl, metric = None\<rparr>,
                     [CallGetResourceNode (Resource r)])
           | Some resNode \<Rightarrow>
               Some (\<lparr>cut = False, passCount = 0, rule = rl,
                       metric = Some (GetOrCreateSlidingWindowMetric w resNode
                                        (SampleCount r) (IntervalInMs r))\<rparr>,
                     [CallGetResourceNode (Resource r),
                      CallGetOrCreateSlidingWindowMetric resNode (SampleCount r) (IntervalInMs r)])))"

definition newBreakerWithMetric :: "'r option \<Rightarrow> readStat option \<Rightarrow> 'r breaker" where
  "newBreakerWithMetric rl m = \<lparr>cut = False, passCount = 0, rule = rl, metric = m\<rparr>"

definition newAverageRtCircuitBreaker ::
  "world \<Rightarrow> averageRtRule option \<Rightarrow> (averageRtCircuitBreaker \<times> effect list) option" where
  "newAverageRtCircuitBreaker = newBreaker"

definition newAverageRtCircuitBreakerWithMetric ::
  "averageRtRule option \<Rightarrow> readStat option \<Rightarrow> averageRtCircuitBreaker" where
  "newAverageRtCircuitBreakerWithMetric = newBreakerWithMetric"

definition newErrorRatioCircuitBreaker ::
  "world \<Rightarrow> errorRatioRule option \<Rightarrow> (errorRatioCircuitBreaker \<times> effect list) option" where
  "newErrorRatioCircuitBreaker = newBreaker"

definition newErrorRatioCircuitBreakerWithMetric ::
  "errorRatioRule option \<Rightarrow> readStat option \<Rightarrow> errorRatioCircuitBreaker" where
  "newErrorRatioCircuitBreakerWithMetric = newBreakerWithMetric"

definition newErrorCountCircuitBreaker ::
  "world \<Rightarrow> errorCountRule option \<Rightarrow> (errorCountCircuitBreaker \<times> effect list) option" where
  "newErrorCountCircuitBreaker = newBreaker"

definition newErrorCountCircuitBreakerWithMetric ::
  "errorCountRule option \<Rightarrow> readStat option \<Rightarrow> errorCountCircuitBreaker" where
  "newErrorCountCircuitBreakerWithMetric = newBreakerWithMetric"

definition getRule :: "'r breaker \<Rightarrow> 'r option" where
  "getRule b = rule b"

subsection \<open>The lazy resolution of the metric source\<close>

text \<open>
  Lines 64--72, 140--148 and 230--238 are the same statements but for the name in the
  second log message: with the metric source still nil the stat node is looked up; a nil
  node is logged and makes the call return \<open>true\<close> (\<open>Inl\<close>, with the effects so far),
  and otherwise the metric source is stored in the breaker.
\<close>

definition resolveMetric ::
  "world \<Rightarrow> string \<Rightarrow> 'a ruleBase_scheme \<Rightarrow> ('a ruleBase_scheme) breaker
     \<Rightarrow> effect list + (readStat \<times> ('a ruleBase_scheme) breaker \<times> effect list)" where
  "resolveMetric w name r b =
     (case metric b of
        Some m \<Rightarrow> Inr (m, b, [])
      | None \<Rightarrow>
          (case GetResourceNode w (Resource r) of
             None \<Rightarrow>
               Inl [CallGetResourceNode (Resource r),
                    LogErrorf ''Resource(%s)'s stat node is nil.'' [Resource r]]
           | Some resNode \<Rightarrow>
               (let m = GetOrCreateSlidingWindowMetric w resNode (SampleCount r) (IntervalInMs r)
                in Inr (m, b\<lparr>metric := Some m\<rparr>,
                        [CallGetResourceNode (Resource r),
                         CallGetOrCreateSlidingWindowMetric resNode (SampleCount r) (IntervalInMs r),
                         LogErrorf (''Delayed to initialize the metric of '' @ name @ ''.'') []]))))"

subsection \<open>Tripping and recovering\<close>

text \<open>
  Lines 83--91, 174--181 and 245--252: the compare-and-swap of the indicator, and the
  goroutine started by the caller that swapped.  The goroutine sleeps for
  \<open>time.Second * time.Duration(rule.RecoverTimeout)\<close>, an \<open>int64\<close> product, and then
  closes the breaker; the one of the latency strategy stores 0 in the counter first.
\<close>

definition trip ::
  "bool \<Rightarrow> 'a ruleBase_scheme \<Rightarrow> ('a ruleBase_scheme) breaker
     \<Rightarrow> ('a ruleBase_scheme) breaker \<times> effect list" where
  "trip reset r b =
     (case CompareAndSet False True (cut b) of
        (True, c) \<Rightarrow>
          (b\<lparr>cut := c\<rparr>,
           [CutCompareAndSet False True True,
            Go (RecoverTask (time_Second * RecoverTimeout r) reset)])
      | (False, c) \<Rightarrow> (b\<lparr>cut := c\<rparr>, [CutCompareAndSet False True False]))"

definition runTask :: "task \<Rightarrow> 'r breaker \<Rightarrow> 'r breaker \<times> effect list" where
  \<comment> \<open>the body of the goroutine once its sleep is over\<close>
  "runTask t b =
     (if resetPassCount t
      then (b\<lparr>passCount := 0, cut := False\<rparr>, [StorePassCount 0, CutSet False])
      else (b\<lparr>cut := False\<rparr>, [CutSet False]))"

subsection \<open>\<open>TryPass\<close>\<close>

text \<open>
  Each \<open>TryPass\<close> is the open check (lines 54, 129, 219), the nil check of the rule,
  the resolution of the metric source, the judgement of the strategy on what the metric
  source reads, and the trip.  The judgements are written apart: they are the statements
  between the resolution and the compare-and-swap.
\<close>

definition averageRt_judge ::
  "world \<Rightarrow> readStat \<Rightarrow> averageRtRule \<Rightarrow> averageRtCircuitBreaker
     \<Rightarrow> bool \<times> averageRtCircuitBreaker \<times> effect list" where
  \<comment> \<open>lines 74--81\<close>
  "averageRt_judge w m r b =
     (let avgRt = AvgRT w m
      in if f64_lt avgRt (averageRtRule.Threshold r)
         then (True, b\<lparr>passCount := 0\<rparr>, [ReadAvgRT m, StorePassCount 0])
         else
           (let b' = b\<lparr>passCount := IncrementAndGetInt64 (passCount b)\<rparr>
            in (sint (passCount b') < sint (RtSlowRequestAmount r),
                b', [ReadAvgRT m, IncrementPassCount])))"

definition averageRt_TryPass ::
  "world \<Rightarrow> averageRtCircuitBreaker \<Rightarrow> bool \<times> averageRtCircuitBreaker \<times> effect list" where
  "averageRt_TryPass w b =
     (if cut b then (False, b, [])
      else case rule b of
        None \<Rightarrow> (True, b, [])
      | Some r \<Rightarrow>
          (case resolveMetric w ''averageRtCircuitBreaker'' r b of
             Inl es \<Rightarrow> (True, b, es)
           | Inr (m, b1, es) \<Rightarrow>
               (case averageRt_judge w m r b1 of
                  (True, b2, es1) \<Rightarrow> (True, b2, es @ es1)
                | (False, b2, es1) \<Rightarrow>
                    (case trip True r b2 of (b3, es2) \<Rightarrow> (False, b3, es @ es1 @ es2)))))"

definition errorRatio_judge ::
  "world \<Rightarrow> readStat \<Rightarrow> errorRatioRule \<Rightarrow> bool \<times> effect list" where
  \<comment> \<open>lines 151--172\<close>
  "errorRatio_judge w m r =
     (let err = GetQPS w m MetricEventError;
          complete = GetQPS w m MetricEventComplete;
          total = f64_add (GetQPS w m MetricEventPass) (GetQPS w m MetricEventBlock);
          es = [ReadQPS m MetricEventError, ReadQPS m MetricEventComplete,
                ReadQPS m MetricEventPass, ReadQPS m MetricEventBlock]
      in if f64_lt total (f64_of_int64 (MinRequestAmount r)) then (True, es)
         else
           (let realComplete = f64_sub complete err
            in if f64_le realComplete (f64_of_int 0)
                  \<and> f64_lt err (f64_of_int64 (MinRequestAmount r))
               then (True, es)
               else (f64_lt (f64_div err complete) (errorRatioRule.Threshold r),
                     es @ [Divide err complete])))"

definition errorRatio_TryPass ::
  "world \<Rightarrow> errorRatioCircuitBreaker \<Rightarrow> bool \<times> errorRatioCircuitBreaker \<times> effect list" where
  "errorRatio_TryPass w b =
     (if cut b then (False, b, [])
      else case rule b of
        None \<Rightarrow> (True, b, [])
      | Some r \<Rightarrow>
          (case resolveMetric w ''errorRatioCircuitBreaker'' r b of
             Inl es \<Rightarrow> (True, b, es)
           | Inr (m, b1, es) \<Rightarrow>
               (case errorRatio_judge w m r of
                  (True, es1) \<Rightarrow> (True, b1, es @ es1)
                | (False, es1) \<Rightarrow>
                    (case trip False r b1 of (b2, es2) \<Rightarrow> (False, b2, es @ es1 @ es2)))))"

definition errorCount_judge ::
  "world \<Rightarrow> readStat \<Rightarrow> errorCountRule \<Rightarrow> bool \<times> effect list" where
  \<comment> \<open>lines 240--243\<close>
  "errorCount_judge w m r =
     (let err = GetQPS w m MetricEventError
      in (f64_lt err (f64_of_int64 (errorCountRule.Threshold r)),
          [ReadQPS m MetricEventError]))"

definition errorCount_TryPass ::
  "world \<Rightarrow> errorCountCircuitBreaker \<Rightarrow> bool \<times> errorCountCircuitBreaker \<times> effect list" where
  "errorCount_TryPass w b =
     (if cut b then (False, b, [])
      else case rule b of
        None \<Rightarrow> (True, b, [])
      | Some r \<Rightarrow>
          (case resolveMetric w ''errorCountCircuitBreaker'' r b of
             Inl es \<Rightarrow> (True, b, es)
           | Inr (m, b1, es) \<Rightarrow>
               (case errorCount_judge w m r of
                  (True, es1) \<Rightarrow> (True, b1, es @ es1)
                | (False, es1) \<Rightarrow>
                    (case trip False r b1 of (b2, es2) \<Rightarrow> (False, b2, es @ es1 @ es2)))))"

subsection \<open>The \<open>CircuitBreaker\<close> interface\<close>

text \<open>
  A value of the interface is one of the three breakers, and \<open>Rule\<close> one of the three
  rule pointers; \<open>TryPass\<close> and \<open>getRule\<close> dispatch on the variant.
\<close>

datatype CircuitBreaker =
  AverageRt averageRtCircuitBreaker
| ErrorRatio errorRatioCircuitBreaker
| ErrorCount errorCountCircuitBreaker

datatype Rule =
  AverageRtRule "averageRtRule option"
| ErrorRatioRule "errorRatioRule option"
| ErrorCountRule "errorCountRule option"

fun TryPass :: "world \<Rightarrow> CircuitBreaker \<Rightarrow> bool \<times> CircuitBreaker \<times> effect list" where
  "TryPass w (AverageRt b) =
     (case averageRt_TryPass w b of (ok, b', es) \<Rightarrow> (ok, AverageRt b', es))"
| "TryPass w (ErrorRatio b) =
     (case errorRatio_TryPass w b of (ok, b', es) \<Rightarrow> (ok, ErrorRatio b', es))"
| "TryPass w (ErrorCount b) =
     (case errorCount_TryPass w b of (ok, b', es) \<Rightarrow> (ok, ErrorCount b', es))"

fun CircuitBreaker_getRule :: "CircuitBreaker \<Rightarrow> Rule" where
  "CircuitBreaker_getRule (AverageRt b) = AverageRtRule (getRule b)"
| "CircuitBreaker_getRule (ErrorRatio b) = ErrorRatioRule (getRule b)"
| "CircuitBreaker_getRule (ErrorCount b) = ErrorCountRule (getRule b)"

fun recover :: "task \<Rightarrow> CircuitBreaker \<Rightarrow> CircuitBreaker \<times> effect list" where
  "recover t (AverageRt b) = (case runTask t b of (b', es) \<Rightarrow> (AverageRt b', es))"
| "recover t (ErrorRatio b) = (case runTask t b of (b', es) \<Rightarrow> (ErrorRatio b', es))"
| "recover t (ErrorCount b) = (case runTask t b of (b', es) \<Rightarrow> (ErrorCount b', es))"

text \<open>The fields of a breaker behind the interface.\<close>

fun isOpen :: "CircuitBreaker \<Rightarrow> bool" where
  "isOpen (AverageRt b) = cut b"
| "isOpen (ErrorRatio b) = cut b"
| "isOpen (ErrorCount b) = cut b"

fun violationCount :: "CircuitBreaker \<Rightarrow> int64" where
  "violationCount (AverageRt b) = passCount b"
| "violationCount (ErrorRatio b) = passCount b"
| "violationCount (ErrorCount b) = passCount b"

fun metricSource :: "CircuitBreaker \<Rightarrow> readStat option" where
  "metricSource (AverageRt b) = metric b"
| "metricSource (ErrorRatio b) = metric b"
| "metricSource (ErrorCount b) = metric b"

fun ruleIsNil :: "CircuitBreaker \<Rightarrow> bool" where
  "ruleIsNil (AverageRt b) = (rule b = None)"
| "ruleIsNil (ErrorRatio b) = (rule b = None)"
| "ruleIsNil (ErrorCount b) = (rule b = None)"

fun ruleResource :: "CircuitBreaker \<Rightarrow> string option" where
  "ruleResource (AverageRt b) = map_option Resource (rule b)"
| "ruleResource (ErrorRatio b) = map_option Resource (rule b)"
| "ruleResource (ErrorCount b) = map_option Resource (rule b)"

fun ruleRecoverTimeout :: "CircuitBreaker \<Rightarrow> int64 option" where
  "ruleRecoverTimeout (AverageRt b) = map_option RecoverTimeout (rule b)"
| "ruleRecoverTimeout (ErrorRatio b) = map_option RecoverTimeout (rule b)"
| "ruleRecoverTimeout (ErrorCount b) = map_option RecoverTimeout (rule b)"

text \<open>Which effects read the metric source.\<close>

fun readsMetric :: "effect \<Rightarrow> bool" where
  "readsMetric (ReadAvgRT m) = True"
| "readsMetric (ReadQPS m e) = True"
| "readsMetric _ = False"

subsection \<open>Lifetimes\<close>

text \<open>
  The life of a breaker after its construction is a sequence of \<open>TryPass\<close> calls, each
  in the world of its moment, and of recovery goroutines reaching the end of their sleep.
\<close>

datatype action = Call world | Wake task

fun act :: "CircuitBreaker \<Rightarrow> action \<Rightarrow> CircuitBreaker" where
  "act cb (Call w) = fst (snd (TryPass w cb))"
| "act cb (Wake t) = fst (recover t cb)"

definition run :: "CircuitBreaker \<Rightarrow> action list \<Rightarrow> CircuitBreaker" where
  "run cb as = foldl act cb as"

text \<open>The results of a sequence of calls, oldest first, and the breaker they leave.\<close>

fun calls :: "CircuitBreaker \<Rightarrow> world list \<Rightarrow> bool list \<times> CircuitBreaker" where
  "calls cb [] = ([], cb)"
| "calls cb (w # ws) =
     (case TryPass w cb of
        (ok, cb', es) \<Rightarrow> (case calls cb' ws of (oks, cb'') \<Rightarrow> (ok # oks, cb'')))"

text \<open>What the six constructors return: a closed breaker whose counter is zero.\<close>

definition fresh :: "CircuitBreaker \<Rightarrow> bool" where
  "fresh cb = (\<not> isOpen cb \<and> violationCount cb = 0)"

subsection \<open>Concurrent callers\<close>

text \<open>
  \<open>TryPass\<close> may be called by any number of goroutines at once, and the recovery
  goroutine runs beside them.  The indicator and the counter are only touched through
  atomic operations, so an execution is an interleaving of the steps below: a caller
  advances from one atomic operation to the next, and what lies between two of them (the
  nil check, the resolution and the reads of the metric source, in the world of that
  moment) belongs to the step that ends at the next one.  A position carries the locals
  that the rest of the call needs: the rule's tolerance and the goroutine to start.
\<close>

datatype pc =
  AtGet
| AtJudge
| AtStore
| AtIncrement int64 task
| AtCompareAndSet task
| AtGo task
| Returned bool

text \<open>The recovery goroutine: its sleep, the store of the latency strategy, the \<open>Set\<close>.\<close>

datatype gpc = Sleeping | AtReset | AtSet | Finished

fun setCut :: "bool \<Rightarrow> CircuitBreaker \<Rightarrow> CircuitBreaker" where
  "setCut c (AverageRt b) = AverageRt (b\<lparr>cut := c\<rparr>)"
| "setCut c (ErrorRatio b) = ErrorRatio (b\<lparr>cut := c\<rparr>)"
| "setCut c (ErrorCount b) = ErrorCount (b\<lparr>cut := c\<rparr>)"

fun setPassCount :: "int64 \<Rightarrow> CircuitBreaker \<Rightarrow> CircuitBreaker" where
  "setPassCount v (AverageRt b) = AverageRt (b\<lparr>passCount := v\<rparr>)"
| "setPassCount v (ErrorRatio b) = ErrorRatio (b\<lparr>passCount := v\<rparr>)"
| "setPassCount v (ErrorCount b) = ErrorCount (b\<lparr>passCount := v\<rparr>)"

definition recoverTask :: "'a ruleBase_scheme \<Rightarrow> bool \<Rightarrow> task" where
  "recoverTask r reset = RecoverTask (time_Second * RecoverTimeout r) reset"

text \<open>
  From the open check to the first atomic operation of the strategy: lines 57--75,
  133--172 and 223--243.
\<close>

fun judgeStep :: "world \<Rightarrow> CircuitBreaker \<Rightarrow> CircuitBreaker \<times> pc" where
  "judgeStep w (AverageRt b) =
     (case rule b of
        None \<Rightarrow> (AverageRt b, Returned True)
      | Some r \<Rightarrow>
          (case resolveMetric w ''averageRtCircuitBreaker'' r b of
             Inl es \<Rightarrow> (AverageRt b, Returned True)
           | Inr (m, b1, es) \<Rightarrow>
               (AverageRt b1,
                if f64_lt (AvgRT w m) (averageRtRule.Threshold r) then AtStore
                else AtIncrement (RtSlowRequestAmount r) (recoverTask r True))))"
| "judgeStep w (ErrorRatio b) =
     (case rule b of
        None \<Rightarrow> (ErrorRatio b, Returned True)
      | Some r \<Rightarrow>
          (case resolveMetric w ''errorRatioCircuitBreaker'' r b of
             Inl es \<Rightarrow> (ErrorRatio b, Returned True)
           | Inr (m, b1, es) \<Rightarrow>
               (ErrorRatio b1,
                if fst (errorRatio_judge w m r) then Returned True
                else AtCompareAndSet (recoverTask r False))))"
| "judgeStep w (ErrorCount b) =
     (case rule b of
        None \<Rightarrow> (ErrorCount b, Returned True)
      | Some r \<Rightarrow>
          (case resolveMetric w ''errorCountCircuitBreaker'' r b of
             Inl es \<Rightarrow> (ErrorCount b, Returned True)
           | Inr (m, b1, es) \<Rightarrow>
               (ErrorCount b1,
                if fst (errorCount_judge w m r) then Returned True
                else AtCompareAndSet (recoverTask r False))))"

fun callerStep :: "world \<Rightarrow> CircuitBreaker \<Rightarrow> pc \<Rightarrow> CircuitBreaker \<times> pc \<times> task list" where
  "callerStep w cb AtGet = (cb, if isOpen cb then Returned False else AtJudge, [])"
| "callerStep w cb AtJudge = (case judgeStep w cb of (cb', p) \<Rightarrow> (cb', p, []))"
| "callerStep w cb AtStore = (setPassCount 0 cb, Returned True, [])"
| "callerStep w cb (AtIncrement amount t) =
     (let v = IncrementAndGetInt64 (violationCount cb)
      in (setPassCount v cb,
          if sint v < sint amount then Returned True else AtCompareAndSet t, []))"
| "callerStep w cb (AtCompareAndSet t) =
     (case CompareAndSet False True (isOpen cb) of
        (True, c) \<Rightarrow> (setCut c cb, AtGo t, [])
      | (False, c) \<Rightarrow> (setCut c cb, Returned False, []))"
| "callerStep w cb (AtGo t) = (cb, Returned False, [t])"
| "callerStep w cb (Returned ok) = (cb, Returned ok, [])"

fun goroutineStep :: "CircuitBreaker \<Rightarrow> task \<times> gpc \<Rightarrow> CircuitBreaker \<times> (task \<times> gpc)" where
  "goroutineStep cb (t, Sleeping) = (cb, (t, if resetPassCount t then AtReset else AtSet))"
| "goroutineStep cb (t, AtReset) = (setPassCount 0 cb, (t, AtSet))"
| "goroutineStep cb (t, AtSet) = (setCut False cb, (t, Finished))"
| "goroutineStep cb (t, Finished) = (cb, (t, Finished))"

text \<open>
  A system is the breaker, the callers inside \<open>TryPass\<close> and the goroutines started so
  far.  An event lets a new caller enter, or lets one caller or one goroutine take its
  next step; an event naming nobody changes nothing.
\<close>

record system =
  shared :: CircuitBreaker
  callers :: "pc list"
  goroutines :: "(task \<times> gpc) list"

datatype event = Enter | Caller nat world | Goroutine nat

fun exec :: "system \<Rightarrow> event \<Rightarrow> system" where
  "exec s Enter = s\<lparr>callers := callers s @ [AtGet]\<rparr>"
| "exec s (Caller i w) =
     (if i < length (callers s)
      then (case callerStep w (shared s) (callers s ! i) of
              (cb', p, ts) \<Rightarrow>
                \<lparr>shared = cb', callers = (callers s)[i := p],
                 goroutines = goroutines s @ map (\<lambda>t. (t, Sleeping)) ts\<rparr>)
      else s)"
| "exec s (Goroutine j) =
     (if j < length (goroutines s)
      then (case goroutineStep (shared s) (goroutines s ! j) of
              (cb', g) \<Rightarrow>
                \<lparr>shared = cb', callers = callers s, goroutines = (goroutines s)[j := g]\<rparr>)
      else s)"

definition execs :: "system \<Rightarrow> event list \<Rightarrow> system" where
  "execs s es = foldl exec s es"

definition start :: "CircuitBreaker \<Rightarrow> system" where
  "start cb = \<lparr>shared = cb, callers = [], goroutines = []\<rparr>"

text \<open>
  A recovery is pending for each caller that has won the swap and not yet started its
  goroutine, and for each goroutine that has not yet closed the breaker.
\<close>

fun aboutToGo :: "pc \<Rightarrow> nat" where
  "aboutToGo (AtGo t) = 1"
| "aboutToGo _ = 0"

fun unfinished :: "task \<times> gpc \<Rightarrow> nat" where
  "unfinished (t, Finished) = 0"
| "unfinished (t, _) = 1"

definition pendingRecoveries :: "system \<Rightarrow> nat" where
  "pendingRecoveries s =
     sum_list (map aboutToGo (callers s)) + sum_list (map unfinished (goroutines s))"

fun isCaller :: "event \<Rightarrow> bool" where
  "isCaller (Caller i w) = True"
| "isCaller _ = False"

fun hasReturned :: "pc \<Rightarrow> bool" where
  "hasReturned (Returned ok) = True"
| "hasReturned _ = False"

text \<open>
  Callers racing to trip: each is at its compare-and-swap, past it, or back with
  \<open>false\<close>; no goroutine has woken; and while the breaker is closed, nobody has
  swapped yet.
\<close>

fun tripping :: "pc \<Rightarrow> bool" where
  "tripping (AtCompareAndSet t) = True"
| "tripping (AtGo t) = True"
| "tripping (Returned ok) = (\<not> ok)"
| "tripping _ = False"

fun atCompareAndSet :: "pc \<Rightarrow> bool" where
  "atCompareAndSet (AtCompareAndSet t) = True"
| "atCompareAndSet _ = False"

definition racing :: "system \<Rightarrow> bool" where
  "racing s \<longleftrightarrow>
     callers s \<noteq> []
     \<and> (\<forall>p \<in> set (callers s). tripping p)
     \<and> (\<forall>g \<in> set (goroutines s). snd g = Sleeping)
     \<and> (\<not> isOpen (shared s) \<longrightarrow> (\<forall>p \<in> set (callers s). atCompareAndSet p))"

text \<open>A caller running alone, for a number of steps, and the goroutines a call starts.\<close>

fun started :: "effect list \<Rightarrow> task list" where
  "started [] = []"
| "started (Go t # es) = t # started es"
| "started (e # es) = started es"

fun solo :: "nat \<Rightarrow> world \<Rightarrow> CircuitBreaker \<times> pc \<times> task list \<Rightarrow> CircuitBreaker \<times> pc \<times> task list" where
  "solo 0 w x = x"
| "solo (Suc n) w (cb, p, ts) =
     (case callerStep w cb p of (cb', p', ts') \<Rightarrow> solo n w (cb', p', ts @ ts'))"

fun isLatency :: "CircuitBreaker \<Rightarrow> bool" where
  "isLatency (AverageRt b) = True"
| "isLatency (ErrorRatio b) = False"
| "isLatency (ErrorCount b) = False"

text \<open>
  The goroutine a breaker starts when it trips, and what stays true of a system that
  started from a constructed breaker: every goroutine, started or about to be, is that
  one; only callers of the latency strategy stand at a write of the counter; only its
  goroutines stand at their store; and the counter of the other two strategies is zero.
\<close>

definition theTask :: "CircuitBreaker \<Rightarrow> task option" where
  "theTask cb =
     map_option (\<lambda>timeout. RecoverTask (time_Second * timeout) (isLatency cb))
       (ruleRecoverTimeout cb)"

fun pcTasks :: "pc \<Rightarrow> task list" where
  "pcTasks (AtIncrement amount t) = [t]"
| "pcTasks (AtCompareAndSet t) = [t]"
| "pcTasks (AtGo t) = [t]"
| "pcTasks _ = []"

fun writesCounter :: "pc \<Rightarrow> bool" where
  "writesCounter AtStore = True"
| "writesCounter (AtIncrement amount t) = True"
| "writesCounter _ = False"

definition sound :: "system \<Rightarrow> bool" where
  "sound s \<longleftrightarrow>
     (\<forall>p \<in> set (callers s).
        (\<forall>t \<in> set (pcTasks p). theTask (shared s) = Some t)
        \<and> (writesCounter p \<longrightarrow> isLatency (shared s)))
     \<and> (\<forall>g \<in> set (goroutines s).
          theTask (shared s) = Some (fst g) \<and> (snd g = AtReset \<longrightarrow> resetPassCount (fst g)))
     \<and> (\<not> isLatency (shared s) \<longrightarrow> violationCount (shared s) = 0)"

section \<open>Concrete rules, breakers and worlds\<close>

text \<open>
  \<open>reading n avg qps\<close> is a world whose registry answers \<open>n\<close> for every resource and
  whose metric sources all read the average latency \<open>avg\<close> and the rates \<open>qps\<close>.
\<close>

definition rates :: "f64 \<Rightarrow> f64 \<Rightarrow> f64 \<Rightarrow> f64 \<Rightarrow> metricEvent \<Rightarrow> f64" where
  "rates pass block err compl ev =
     (case ev of
        MetricEventPass \<Rightarrow> pass
      | MetricEventBlock \<Rightarrow> block
      | MetricEventError \<Rightarrow> err
      | MetricEventComplete \<Rightarrow> compl)"

definition reading :: "node option \<Rightarrow> f64 \<Rightarrow> (metricEvent \<Rightarrow> f64) \<Rightarrow> world" where
  "reading n avg qps =
     \<lparr>GetResourceNode = (\<lambda>res. n),
      GetOrCreateSlidingWindowMetric = (\<lambda>nd sc iv. 7),
      AvgRT = (\<lambda>m. avg),
      GetQPS = (\<lambda>m. qps)\<rparr>"

definition num :: "int \<Rightarrow> f64" where
  \<comment> \<open>a small whole number as a \<open>float64\<close>: exact\<close>
  "num n = Finite (n < 0) (of_int \<bar>n\<bar>)"

definition quiet :: world where
  "quiet = reading (Some 1) (num 0) (rates (num 0) (num 0) (num 0) (num 0))"

definition unresolved :: world where
  \<comment> \<open>a world whose registry knows no resource\<close>
  "unresolved = reading None (num 0) (rates (num 0) (num 0) (num 0) (num 0))"

definition slow :: world where
  "slow = reading (Some 1) (num 150) (rates (num 0) (num 0) (num 0) (num 0))"

definition fast :: world where
  "fast = reading (Some 1) (num 50) (rates (num 0) (num 0) (num 0) (num 0))"

definition qps :: "int \<Rightarrow> int \<Rightarrow> int \<Rightarrow> int \<Rightarrow> world" where
  \<comment> \<open>the world reading the rates \<open>pass\<close>, \<open>block\<close>, \<open>err\<close> and \<open>complete\<close>\<close>
  "qps p b e c = reading (Some 1) (num 0) (rates (num p) (num b) (num e) (num c))"

definition qpsReads :: "readStat \<Rightarrow> effect list" where
  "qpsReads m = [ReadQPS m MetricEventError, ReadQPS m MetricEventComplete,
              ReadQPS m MetricEventPass, ReadQPS m MetricEventBlock]"

definition latencyRule :: averageRtRule where
  \<comment> \<open>threshold 100 ms, tolerance 3, cooldown 1 s\<close>
  "latencyRule =
     \<lparr>Resource = ''abc'', SampleCount = 10, IntervalInMs = 1000, RecoverTimeout = 1,
      averageRtRule.Threshold = num 100, RtSlowRequestAmount = 3\<rparr>"

definition ratioRule :: errorRatioRule where
  \<comment> \<open>threshold 0.5, minimum request amount 5, cooldown 1 s\<close>
  "ratioRule =
     \<lparr>Resource = ''abc'', SampleCount = 10, IntervalInMs = 1000, RecoverTimeout = 1,
      errorRatioRule.Threshold = Finite False (1 / 2), MinRequestAmount = 5\<rparr>"

definition countRule :: errorCountRule where
  \<comment> \<open>threshold 10, cooldown 1 s\<close>
  "countRule =
     \<lparr>Resource = ''abc'', SampleCount = 10, IntervalInMs = 1000, RecoverTimeout = 1,
      errorCountRule.Threshold = 10\<rparr>"

definition latencyBreaker :: averageRtCircuitBreaker where
  "latencyBreaker = newAverageRtCircuitBreakerWithMetric (Some latencyRule) (Some 7)"

definition ratioBreaker :: errorRatioCircuitBreaker where
  "ratioBreaker = newErrorRatioCircuitBreakerWithMetric (Some ratioRule) (Some 7)"

definition countBreaker :: errorCountCircuitBreaker where
  "countBreaker = newErrorCountCircuitBreakerWithMetric (Some countRule) (Some 7)"

definition racers :: system where
  \<comment> \<open>three callers of the ratio breaker, each about to run its compare-and-swap\<close>
  "racers =
     \<lparr>shared = ErrorRatio ratioBreaker,
      callers = map AtCompareAndSet
                  [recoverTask ratioRule False, recoverTask ratioRule False,
                   recoverTask ratioRule False],
      goroutines = []\<rparr>"

definition raceOrder :: "event list" where
  "raceOrder = [Caller 1 quiet, Caller 0 quiet, Caller 2 quiet, Caller 1 quiet]"

definition tripOrder :: "event list" where
  \<comment> \<open>two callers of the count breaker see ten errors; the second wins the swap\<close>
  "tripOrder =
     [Enter, Enter, Caller 0 (qps 0 0 10 0), Caller 1 (qps 0 0 10 0),
      Caller 0 (qps 0 0 10 0), Caller 1 (qps 0 0 10 0),
      Caller 1 (qps 0 0 10 0), Caller 0 (qps 0 0 10 0), Caller 1 (qps 0 0 10 0)]"

definition staleOrder :: "event list" where
  \<comment> \<open>four callers pass the open check; three trip the breaker; the fourth increments
      between the store and the \<open>Set\<close> of the goroutine\<close>
  "staleOrder =
     [Enter, Enter, Enter, Enter,
      Caller 0 slow, Caller 1 slow, Caller 2 slow, Caller 3 slow,
      Caller 0 slow, Caller 1 slow, Caller 2 slow, Caller 3 slow,
      Caller 0 slow, Caller 1 slow, Caller 2 slow,
      Caller 2 slow, Caller 2 slow,
      Goroutine 0, Goroutine 0,
      Caller 3 slow,
      Goroutine 0]"

definition calmOrder :: "event list" where
  \<comment> \<open>three callers, one after the other; the third trips the breaker\<close>
  "calmOrder =
     [Enter, Caller 0 slow, Caller 0 slow, Caller 0 slow,
      Enter, Caller 1 slow, Caller 1 slow, Caller 1 slow,
      Enter, Caller 2 slow, Caller 2 slow, Caller 2 slow,
      Caller 2 slow, Caller 2 slow]"

definition longRule :: averageRtRule where
  \<comment> \<open>a cooldown whose nanoseconds do not fit an \<open>int64\<close>\<close>
  "longRule = latencyRule\<lparr>RecoverTimeout := 9223372037\<rparr>"

section \<open>Facts about the numeric types\<close>

lemma f64_le_not_lt: "f64_le y x \<Longrightarrow> \<not> f64_lt x y"
  by (cases x; cases y) auto

lemma pow2_pos: "0 < pow2 k"
  by (simp add: pow2_def)

lemma round_half_even_nonneg: "0 \<le> q \<Longrightarrow> 0 \<le> round_half_even q"
  by (auto simp: round_half_even_def Let_def intro: add_nonneg_nonneg)

text \<open>
  The rounding is sound: \<open>floor_log2\<close> finds the binade of a positive rational, and a
  finite result of \<open>round_f64\<close> keeps the sign, is a multiple \<open>m * 2^e\<close> of a power of
  two not below the least subnormal, with at most 53 bits in \<open>m\<close>, lies within half of
  \<open>2^e\<close> of the magnitude rounded, and is below \<open>2^1024\<close>.
\<close>

lemma pow2_powi: "pow2 k = 2 powi k"
  by (simp add: pow2_def power_int_def inverse_eq_divide power_one_over field_simps)

lemma pow2_div: "pow2 i / pow2 j = pow2 (i - j)"
  by (simp add: pow2_powi power_int_diff)

lemma pow2_mono: "i \<le> j \<Longrightarrow> pow2 i \<le> pow2 j"
  by (simp add: pow2_powi power_int_increasing)

lemma pow2_53: "pow2 53 = rat_of_int (2 ^ 53)"
  by (simp add: pow2_def)

lemma of_int_bitlen_bounds:
  assumes "0 < a"
  shows "pow2 (bitlen a - 1) \<le> rat_of_int a" and "rat_of_int a < pow2 (bitlen a)"
proof -
  from assms have "1 \<le> bitlen a"
    by (auto simp: bitlen_alt_def)
  moreover have "2 ^ nat (bitlen a - 1) \<le> a" "a < 2 ^ nat (bitlen a)"
    using bitlen_bounds [OF assms] by simp_all
  then have "rat_of_int (2 ^ nat (bitlen a - 1)) \<le> rat_of_int a"
      "rat_of_int a < rat_of_int (2 ^ nat (bitlen a))"
    by (simp_all only: of_int_le_iff of_int_less_iff)
  ultimately show "pow2 (bitlen a - 1) \<le> rat_of_int a" "rat_of_int a < pow2 (bitlen a)"
    using bitlen_nonneg [of a] by (simp_all add: pow2_def)
qed

lemma floor_log2_bounds:
  assumes "0 < q"
  shows "pow2 (floor_log2 q) \<le> q \<and> q < pow2 (floor_log2 q + 1)"
proof -
  obtain a b where ab: "quotient_of q = (a, b)"
    by (cases "quotient_of q") auto
  then have b: "0 < b" and q: "q = rat_of_int a / rat_of_int b"
    using quotient_of_denom_pos quotient_of_div by blast+
  with assms have a: "0 < a"
    by (simp add: zero_less_divide_iff)
  let ?k = "bitlen a - bitlen b"
  note A = of_int_bitlen_bounds [OF a] and B = of_int_bitlen_bounds [OF b]
  have pos: "0 < rat_of_int b" "0 < rat_of_int a" using a b by simp_all
  have "q < pow2 (bitlen a) / pow2 (bitlen b - 1)"
    unfolding q using A(2) B(1) pos
    by (intro frac_less) (simp_all add: pow2_powi)
  also have "\<dots> = pow2 (?k + 1)"
    by (simp only: pow2_div) (simp add: algebra_simps)
  finally have upper: "q < pow2 (?k + 1)" .
  have "pow2 (bitlen a - 1) / pow2 (bitlen b) < q"
    unfolding q using A(1) B(2) pos
    by (intro frac_less2) (simp_all add: pow2_powi)
  moreover have "pow2 (bitlen a - 1) / pow2 (bitlen b) = pow2 (?k - 1)"
    by (simp only: pow2_div) (simp add: algebra_simps)
  ultimately have lower: "pow2 (?k - 1) < q" by simp
  show ?thesis
    using upper lower ab by (auto simp: floor_log2_def Let_def)
qed

lemma round_half_even_nearest: "\<bar>rat_of_int (round_half_even q) - q\<bar> \<le> 1 / 2"
proof -
  have "rat_of_int \<lfloor>q\<rfloor> \<le> q" "q < rat_of_int \<lfloor>q\<rfloor> + 1"
    by linarith+
  then show ?thesis
    by (auto simp: round_half_even_def Let_def abs_le_iff)
qed

lemma round_half_even_le:
  assumes "q < rat_of_int n"
  shows "round_half_even q \<le> n"
proof -
  from assms have "\<lfloor>q\<rfloor> < n" by (simp add: floor_less_iff)
  then show ?thesis
    by (auto simp: round_half_even_def Let_def)
qed

lemma round_f64_finite:
  assumes "q \<noteq> 0" and "round_f64 s q = Finite s' r"
  shows "s' = s
         \<and> (\<exists>m e. r = rat_of_int m * pow2 e \<and> 0 \<le> m \<and> m \<le> 2 ^ 53 \<and> - 1074 \<le> e
                  \<and> \<bar>r - \<bar>q\<bar>\<bar> \<le> pow2 e / 2)
         \<and> r < pow2 1024"
proof -
  define e where "e = max (floor_log2 \<bar>q\<bar> - 52) (- 1074)"
  define m where "m = round_half_even (\<bar>q\<bar> / pow2 e)"
  from assms have r: "r = rat_of_int m * pow2 e" and s: "s' = s" and top: "r < pow2 1024"
    by (auto simp: round_f64_def Let_def e_def m_def split: if_splits)
  have pos: "0 < pow2 e" by (rule pow2_pos)
  have "0 \<le> \<bar>q\<bar> / pow2 e" using pos by simp
  then have m0: "0 \<le> m" unfolding m_def by (rule round_half_even_nonneg)
  have "\<bar>q\<bar> < pow2 (floor_log2 \<bar>q\<bar> + 1)"
    using floor_log2_bounds [of "\<bar>q\<bar>"] assms(1) by simp
  also have "\<dots> \<le> pow2 (e + 53)"
    by (intro pow2_mono) (simp add: e_def)
  finally have "\<bar>q\<bar> / pow2 e < pow2 (e + 53) / pow2 e"
    using pos by (simp add: divide_strict_right_mono)
  then have "\<bar>q\<bar> / pow2 e < rat_of_int (2 ^ 53)"
    by (simp only: pow2_div pow2_53 [symmetric]) simp
  then have m53: "m \<le> 2 ^ 53"
    unfolding m_def by (rule round_half_even_le)
  have "\<bar>rat_of_int m - \<bar>q\<bar> / pow2 e\<bar> \<le> 1 / 2"
    unfolding m_def by (rule round_half_even_nearest)
  then have "\<bar>rat_of_int m - \<bar>q\<bar> / pow2 e\<bar> * pow2 e \<le> 1 / 2 * pow2 e"
    using pos by (intro mult_right_mono) simp_all
  moreover have "\<bar>rat_of_int m - \<bar>q\<bar> / pow2 e\<bar> * pow2 e = \<bar>r - \<bar>q\<bar>\<bar>"
  proof -
    have "\<bar>rat_of_int m - \<bar>q\<bar> / pow2 e\<bar> * pow2 e
            = \<bar>(rat_of_int m - \<bar>q\<bar> / pow2 e) * pow2 e\<bar>"
      using pos by (simp add: abs_mult)
    also have "(rat_of_int m - \<bar>q\<bar> / pow2 e) * pow2 e = r - \<bar>q\<bar>"
      using pos by (simp add: r left_diff_distrib)
    finally show ?thesis .
  qed
  ultimately have err: "\<bar>r - \<bar>q\<bar>\<bar> \<le> pow2 e / 2" by simp
  have "- 1074 \<le> e" by (simp add: e_def)
  with r s top m0 m53 err show ?thesis by blast
qed

lemma round_f64_sign:
  "(\<exists>r. 0 \<le> r \<and> round_f64 s q = Finite s r) \<or> round_f64 s q = Infinity s"
proof (cases "q = 0")
  case True
  then show ?thesis by (simp add: round_f64_def)
next
  case False
  define e where "e = max (floor_log2 \<bar>q\<bar> - 52) (- 1074)"
  have "0 \<le> \<bar>q\<bar> / pow2 e"
    using pow2_pos [of e] by simp
  then have "0 \<le> round_half_even (\<bar>q\<bar> / pow2 e)"
    by (rule round_half_even_nonneg)
  then have "0 \<le> rat_of_int (round_half_even (\<bar>q\<bar> / pow2 e)) * pow2 e"
    using pow2_pos [of e] by simp
  with False show ?thesis
    by (simp add: round_f64_def Let_def e_def)
qed

lemma f64_of_int_0: "f64_of_int 0 = Finite False 0"
  by (simp add: f64_of_int_def round_f64_def)

lemma f64_le_round_0: "f64_le (round_f64 True q) (Finite False 0)"
  using round_f64_sign [of True q] by (auto simp: signed_def)

lemma zero_minus_nonneg:
  assumes "is_zero c" and "f64_le (Finite False 0) e"
  shows "f64_le (f64_sub c e) (Finite False 0)"
proof (cases e)
  case (Finite t a)
  obtain s where c: "c = Finite s 0"
    using assms(1) by (cases c) (auto simp: is_zero_def)
  from assms(2) Finite have a: "0 \<le> signed t a" by (simp add: signed_def)
  have neg: "signed (\<not> t) a = - signed t a" by (simp add: signed_def)
  show ?thesis
  proof (cases "signed t a = 0")
    case True
    then show ?thesis using c Finite neg by (simp add: f64_sub_def signed_def)
  next
    case False
    with a have "- signed t a < 0" by simp
    then show ?thesis
      using c Finite neg False f64_le_round_0
      by (auto simp: f64_sub_def Let_def signed_def split: if_splits)
  qed
next
  case (Infinity t)
  obtain s where c: "c = Finite s 0"
    using assms(1) by (cases c) (auto simp: is_zero_def)
  from assms(2) Infinity have "\<not> t" by simp
  then show ?thesis using c Infinity by (simp add: f64_sub_def)
next
  case NaN
  with assms(2) show ?thesis by simp
qed

lemma div_by_zero_nonneg:
  assumes "f64_le (Finite False 0) e"
  shows "f64_div e (Finite False 0) = NaN \<or> f64_div e (Finite False 0) = Infinity False"
proof (cases e)
  case (Finite t a)
  with assms have "0 \<le> signed t a" by (simp add: signed_def)
  then have "a \<noteq> 0 \<Longrightarrow> \<not> t" by (auto simp: signed_def split: if_splits)
  with Finite show ?thesis by auto
next
  case (Infinity t)
  with assms show ?thesis by simp
next
  case NaN
  then show ?thesis by simp
qed

lemma sleep_seconds:
  fixes timeout :: int64
  assumes "0 \<le> sint timeout" and "sint timeout \<le> 9223372036"
  shows "sint (time_Second * timeout) = 1000000000 * sint timeout"
proof -
  have "sint (time_Second * timeout) = signed_take_bit 63 (sint time_Second * sint timeout)"
    by (simp add: sint_word_ariths)
  moreover have "sint time_Second = 1000000000"
    by (simp add: time_Second_def)
  moreover have "signed_take_bit 63 (1000000000 * sint timeout) = 1000000000 * sint timeout"
    using assms by (intro signed_take_bit_int_eq_self) auto
  ultimately show ?thesis by simp
qed

lemma num_0: "num 0 = Finite False 0"
  by (simp add: num_def)

lemma num_lt: "f64_lt (num i) (num j) \<longleftrightarrow> i < j"
  by (auto simp: num_def signed_def)

lemma num_le: "f64_le (num i) (num j) \<longleftrightarrow> i \<le> j"
  by (auto simp: num_def signed_def)

lemma zero_le_num: "0 \<le> i \<Longrightarrow> f64_le (Finite False 0) (num i)"
  using num_le [of 0 i] by (simp add: num_0)

text \<open>
  Two values of the rounding, against the binary64 encodings: 0.1 is
  \<open>0x3FB999999999999A\<close>, that is \<open>3602879701896397 / 2^55\<close>, and \<open>2^53 + 1\<close> is
  a tie that goes to its even neighbour.
\<close>

lemma round_f64_tenth:
  "round_f64 False (1 / 10) = Finite False (3602879701896397 / 36028797018963968)"
  by code_simp

lemma round_f64_tie: "round_f64 False (2 ^ 53 + 1) = Finite False (2 ^ 53)"
  by code_simp

text \<open>The values met in the examples below.\<close>

lemma f64_of_int64_5: "f64_of_int64 5 = num 5" by code_simp

lemma f64_of_int64_10: "f64_of_int64 10 = num 10" by code_simp

lemma add_10_0: "f64_add (num 10) (Finite False 0) = num 10" by code_simp

lemma sub_10_6_positive: "\<not> f64_le (f64_sub (num 10) (num 6)) (Finite False 0)" by code_simp

lemma sub_10_2_positive: "\<not> f64_le (f64_sub (num 10) (num 2)) (Finite False 0)" by code_simp

lemma sub_0_2_not_positive: "f64_le (f64_sub (Finite False 0) (num 2)) (Finite False 0)" by code_simp

lemma div_6_10: "f64_div (num 6) (num 10) = Finite False (5404319552844595 / 9007199254740992)" by code_simp

lemma div_6_10_not_below_half: "\<not> f64_lt (f64_div (num 6) (num 10)) (Finite False (1 / 2))" by code_simp

lemma div_2_10_below_half: "f64_lt (f64_div (num 2) (num 10)) (Finite False (1 / 2))" by code_simp

lemma div_5_0: "f64_div (num 5) (Finite False 0) = Infinity False"
  by (simp add: num_def)

section \<open>Facts about the shared steps\<close>

lemma resolveMetric_Inr:
  "resolveMetric w name r b = Inr (m, b1, es) \<Longrightarrow>
     cut b1 = cut b \<and> passCount b1 = passCount b \<and> rule b1 = rule b \<and> metric b1 = Some m"
  by (auto simp: resolveMetric_def Let_def split: option.splits)

lemma resolveMetric_resolved:
  "metric b = Some m \<Longrightarrow> resolveMetric w name r b = Inr (m, b, [])"
  by (simp add: resolveMetric_def)

lemma resolveMetric_unresolved:
  "metric b = None \<Longrightarrow> GetResourceNode w (Resource r) = None \<Longrightarrow>
     resolveMetric w name r b
       = Inl [CallGetResourceNode (Resource r), LogErrorf ''Resource(%s)'s stat node is nil.'' [Resource r]]"
  by (simp add: resolveMetric_def)

lemma resolveMetric_looks_up:
  "metric b = None \<Longrightarrow>
     (case resolveMetric w name r b of
        Inl es \<Rightarrow> \<exists>es'. es = CallGetResourceNode (Resource r) # es'
      | Inr (m, b1, es) \<Rightarrow> \<exists>es'. es = CallGetResourceNode (Resource r) # es')"
  by (simp add: resolveMetric_def Let_def split: option.splits)

lemma trip_fields:
  "trip reset r b = (b', es) \<Longrightarrow>
     passCount b' = passCount b \<and> rule b' = rule b \<and> metric b' = metric b"
  by (auto simp: trip_def CompareAndSet_def split: if_splits)

lemma trip_closed:
  "\<not> cut b \<Longrightarrow>
     trip reset r b =
       (b\<lparr>cut := True\<rparr>,
        [CutCompareAndSet False True True,
         Go (RecoverTask (time_Second * RecoverTimeout r) reset)])"
  by (simp add: trip_def CompareAndSet_def)

lemma averageRt_judge_fields:
  "averageRt_judge w m r b = (ok, b', es) \<Longrightarrow>
     cut b' = cut b \<and> rule b' = rule b \<and> metric b' = metric b"
  by (auto simp: averageRt_judge_def Let_def split: if_splits)

text \<open>Every constructor returns a closed breaker with a zero counter.\<close>

lemma newBreaker_fresh:
  "newBreaker w rl = Some (b, es) \<Longrightarrow> \<not> cut b \<and> passCount b = 0 \<and> rule b = rl"
  by (auto simp: newBreaker_def split: option.splits)

lemma newBreakerWithMetric_fresh:
  "\<not> cut (newBreakerWithMetric rl m) \<and> passCount (newBreakerWithMetric rl m) = 0"
  by (simp add: newBreakerWithMetric_def)

lemma constructors_fresh:
  "newAverageRtCircuitBreaker w rl1 = Some (b1, es1) \<Longrightarrow> fresh (AverageRt b1)"
  "newErrorRatioCircuitBreaker w rl2 = Some (b2, es2) \<Longrightarrow> fresh (ErrorRatio b2)"
  "newErrorCountCircuitBreaker w rl3 = Some (b3, es3) \<Longrightarrow> fresh (ErrorCount b3)"
  "fresh (AverageRt (newAverageRtCircuitBreakerWithMetric rl1 m))"
  "fresh (ErrorRatio (newErrorRatioCircuitBreakerWithMetric rl2 m))"
  "fresh (ErrorCount (newErrorCountCircuitBreakerWithMetric rl3 m))"
  by (auto simp: fresh_def newAverageRtCircuitBreaker_def newErrorRatioCircuitBreaker_def
        newErrorCountCircuitBreaker_def newAverageRtCircuitBreakerWithMetric_def
        newErrorRatioCircuitBreakerWithMetric_def newErrorCountCircuitBreakerWithMetric_def
        newBreakerWithMetric_fresh dest: newBreaker_fresh)

text \<open>A call on an open breaker, and a call on a closed one with its rule and metric source.\<close>

lemma averageRt_TryPass_open:
  "cut b \<Longrightarrow> averageRt_TryPass w b = (False, b, [])"
  by (simp add: averageRt_TryPass_def)

lemma errorRatio_TryPass_open:
  "cut b \<Longrightarrow> errorRatio_TryPass w b = (False, b, [])"
  by (simp add: errorRatio_TryPass_def)

lemma errorCount_TryPass_open:
  "cut b \<Longrightarrow> errorCount_TryPass w b = (False, b, [])"
  by (simp add: errorCount_TryPass_def)

lemma averageRt_TryPass_closed:
  assumes "\<not> cut b" and "rule b = Some r" and "metric b = Some m"
  shows "averageRt_TryPass w b =
           (case averageRt_judge w m r b of
              (ok, b2, es1) \<Rightarrow>
                if ok then (True, b2, es1)
                else (False, b2\<lparr>cut := True\<rparr>,
                      es1 @ [CutCompareAndSet False True True,
                             Go (RecoverTask (time_Second * RecoverTimeout r) True)]))"
  using assms
  by (auto simp: averageRt_TryPass_def resolveMetric_resolved trip_closed
           split: prod.splits bool.splits dest: averageRt_judge_fields)

lemma errorRatio_TryPass_closed:
  assumes "\<not> cut b" and "rule b = Some r" and "metric b = Some m"
  shows "errorRatio_TryPass w b =
           (case errorRatio_judge w m r of
              (ok, es1) \<Rightarrow>
                if ok then (True, b, es1)
                else (False, b\<lparr>cut := True\<rparr>,
                      es1 @ [CutCompareAndSet False True True,
                             Go (RecoverTask (time_Second * RecoverTimeout r) False)]))"
  using assms
  by (auto simp: errorRatio_TryPass_def resolveMetric_resolved trip_closed
           split: prod.splits bool.splits)

lemma errorCount_TryPass_closed:
  assumes "\<not> cut b" and "rule b = Some r" and "metric b = Some m"
  shows "errorCount_TryPass w b =
           (case errorCount_judge w m r of
              (ok, es1) \<Rightarrow>
                if ok then (True, b, es1)
                else (False, b\<lparr>cut := True\<rparr>,
                      es1 @ [CutCompareAndSet False True True,
                             Go (RecoverTask (time_Second * RecoverTimeout r) False)]))"
  using assms
  by (auto simp: errorCount_TryPass_def resolveMetric_resolved trip_closed
           split: prod.splits bool.splits)

lemma latencyBreaker_fields:
  "\<not> cut latencyBreaker" "rule latencyBreaker = Some latencyRule"
  "metric latencyBreaker = Some 7" "passCount latencyBreaker = 0"
  by (simp_all add: latencyBreaker_def newAverageRtCircuitBreakerWithMetric_def
        newBreakerWithMetric_def)

lemma ratioBreaker_fields:
  "\<not> cut ratioBreaker" "rule ratioBreaker = Some ratioRule" "metric ratioBreaker = Some 7"
  by (simp_all add: ratioBreaker_def newErrorRatioCircuitBreakerWithMetric_def
        newBreakerWithMetric_def)

lemma countBreaker_fields:
  "\<not> cut countBreaker" "rule countBreaker = Some countRule" "metric countBreaker = Some 7"
  by (simp_all add: countBreaker_def newErrorCountCircuitBreakerWithMetric_def
        newBreakerWithMetric_def)

section \<open>A rejected call touches nothing\<close>

text \<open>
  Claim C1.  For each of the three strategies, a \<open>TryPass\<close> call that finds the tripped
  indicator true returns false, leaves the breaker as it was (so the debounce counter
  is not written) and has no effect at all: in particular it reads nothing from the
  metric source.
\<close>

theorem TryPass_open_rejects:
  assumes "isOpen cb"
  shows "TryPass w cb = (False, cb, [])"
  using assms
  by (cases cb)
     (simp_all add: averageRt_TryPass_open errorRatio_TryPass_open errorCount_TryPass_open)

theorem TryPass_open_rejects_witness:
  "isOpen (ErrorRatio (ratioBreaker\<lparr>cut := True\<rparr>))
   \<and> TryPass quiet (ErrorRatio (ratioBreaker\<lparr>cut := True\<rparr>))
       = (False, ErrorRatio (ratioBreaker\<lparr>cut := True\<rparr>), [])"
  using TryPass_open_rejects [of "ErrorRatio (ratioBreaker\<lparr>cut := True\<rparr>)" quiet]
  by simp

section \<open>One recovery goroutine for each trip\<close>

lemma isOpen_setCut [simp]: "isOpen (setCut c cb) = c"
  by (cases cb) simp_all

lemma isOpen_setPassCount [simp]: "isOpen (setPassCount v cb) = isOpen cb"
  by (cases cb) simp_all

lemma setCut_same [simp]: "setCut (isOpen cb) cb = cb"
  by (cases cb) simp_all

lemma judgeStep_isOpen: "judgeStep w cb = (cb', p) \<Longrightarrow> isOpen cb' = isOpen cb"
  by (cases cb)
     (auto split: option.splits sum.splits prod.splits if_splits dest!: resolveMetric_Inr)

lemma judgeStep_pc: "judgeStep w cb = (cb', p) \<Longrightarrow> aboutToGo p = 0"
  by (cases cb)
     (auto split: option.splits sum.splits prod.splits if_splits)

lemma sum_list_map_update:
  fixes f :: "'a \<Rightarrow> nat"
  assumes "i < length xs"
  shows "sum_list (map f (xs[i := y])) + f (xs ! i) = sum_list (map f xs) + f y"
  using assms
proof (induction xs arbitrary: i)
  case Nil
  then show ?case by simp
next
  case (Cons x xs)
  then show ?case by (cases i) auto
qed

lemma sum_list_unfinished_new: "sum_list (map unfinished (map (\<lambda>t. (t, Sleeping)) ts)) = length ts"
  by (induction ts) simp_all

lemma unfinished_le: "j < length gs \<Longrightarrow> unfinished (gs ! j) \<le> sum_list (map unfinished gs)"
  by (simp add: member_le_sum_list)

lemma sum_list_zero: "(\<forall>x \<in> set xs. f x = (0::nat)) \<Longrightarrow> sum_list (map f xs) = 0"
  by (induction xs) simp_all

lemma sum_list_one: "(\<forall>x \<in> set xs. f x = (1::nat)) \<Longrightarrow> sum_list (map f xs) = length xs"
  by (induction xs) simp_all

text \<open>
  A step of a caller changes the number of pending recoveries exactly as it changes the
  indicator; so does a step of a goroutine, which can only be unfinished while the
  breaker is open.
\<close>

lemma callerStep_pending:
  assumes "callerStep w cb p = (cb', p', ts)"
  shows "aboutToGo p' + length ts + (if isOpen cb then 1 else 0)
           = aboutToGo p + (if isOpen cb' then 1 else 0)"
  using assms
  by (cases p)
     (auto simp: CompareAndSet_def Let_def split: prod.splits if_splits
           dest: judgeStep_isOpen judgeStep_pc)

lemma goroutineStep_pending:
  assumes "goroutineStep cb g = (cb', g')" and "unfinished g = 1 \<longrightarrow> isOpen cb"
  shows "unfinished g' + (if isOpen cb then 1 else 0)
           = unfinished g + (if isOpen cb' then 1 else 0)"
  using assms
  by (cases g; cases "snd g") (auto split: if_splits)

lemma exec_pending:
  assumes "pendingRecoveries s = (if isOpen (shared s) then 1 else 0)"
  shows "pendingRecoveries (exec s e) = (if isOpen (shared (exec s e)) then 1 else 0)"
proof (cases e)
  case Enter
  with assms show ?thesis by (simp add: pendingRecoveries_def)
next
  case (Caller i w)
  show ?thesis
  proof (cases "i < length (callers s)")
    case False
    with Caller assms show ?thesis by simp
  next
    case True
    obtain cb' p ts where step: "callerStep w (shared s) (callers s ! i) = (cb', p, ts)"
      by (cases "callerStep w (shared s) (callers s ! i)") auto
    have s': "exec s e = \<lparr>shared = cb', callers = (callers s)[i := p],
                 goroutines = goroutines s @ map (\<lambda>t. (t, Sleeping)) ts\<rparr>"
      using Caller True step by simp
    have "pendingRecoveries (exec s e)
            = sum_list (map aboutToGo ((callers s)[i := p]))
              + (sum_list (map unfinished (goroutines s)) + length ts)"
      unfolding s' pendingRecoveries_def
      by (simp add: sum_list_unfinished_new del: map_map)
    moreover have "isOpen (shared (exec s e)) = isOpen cb'"
      unfolding s' by simp
    moreover note sum_list_map_update [OF True, of aboutToGo p] callerStep_pending [OF step]
      assms [unfolded pendingRecoveries_def]
    ultimately show ?thesis
      by (simp split: if_splits)
  qed
next
  case (Goroutine j)
  show ?thesis
  proof (cases "j < length (goroutines s)")
    case False
    with Goroutine assms show ?thesis by simp
  next
    case True
    obtain cb' g where step: "goroutineStep (shared s) (goroutines s ! j) = (cb', g)"
      by (cases "goroutineStep (shared s) (goroutines s ! j)") auto
    have "unfinished (goroutines s ! j) = 1 \<longrightarrow> isOpen (shared s)"
    proof (cases "isOpen (shared s)")
      case True
      then show ?thesis by simp
    next
      case False
      with assms have "sum_list (map aboutToGo (callers s))
                         + sum_list (map unfinished (goroutines s)) = 0"
        by (simp only: pendingRecoveries_def if_False)
      with unfinished_le [OF \<open>j < length (goroutines s)\<close>] show ?thesis
        by linarith
    qed
    note opened = this
    have s': "exec s e = \<lparr>shared = cb', callers = callers s,
                 goroutines = (goroutines s)[j := g]\<rparr>"
      using Goroutine True step by simp
    have "pendingRecoveries (exec s e)
            = sum_list (map aboutToGo (callers s))
              + sum_list (map unfinished ((goroutines s)[j := g]))"
      unfolding s' pendingRecoveries_def by simp
    moreover have "isOpen (shared (exec s e)) = isOpen cb'"
      unfolding s' by simp
    moreover note sum_list_map_update [OF True, of unfinished g]
      goroutineStep_pending [OF step opened] assms [unfolded pendingRecoveries_def]
    ultimately show ?thesis
      by (simp split: if_splits)
  qed
qed

lemma execs_pending:
  assumes "pendingRecoveries s = (if isOpen (shared s) then 1 else 0)"
  shows "pendingRecoveries (execs s es) = (if isOpen (shared (execs s es)) then 1 else 0)"
  using assms unfolding execs_def
  by (induction es arbitrary: s) (simp_all add: exec_pending)

text \<open>The swap of a caller that finds the breaker open, and of one that finds it closed.\<close>

lemma callerStep_loser:
  "isOpen cb \<Longrightarrow> callerStep w cb (AtCompareAndSet t) = (cb, Returned False, [])"
  using setCut_same [of cb] by (simp add: CompareAndSet_def del: setCut_same)

lemma callerStep_winner:
  "\<not> isOpen cb \<Longrightarrow> callerStep w cb (AtCompareAndSet t) = (setCut True cb, AtGo t, [])"
  by (simp add: CompareAndSet_def)

lemma callerStep_starts:
  "callerStep w cb p = (cb', p', ts) \<Longrightarrow> ts \<noteq> [] \<Longrightarrow> p = AtGo (hd ts) \<and> ts = [hd ts]"
  by (cases p) (auto simp: Let_def CompareAndSet_def split: prod.splits if_splits)

lemma callerStep_tripping:
  assumes "callerStep w cb p = (cb', p', ts)" and "tripping p"
  shows "tripping p' \<and> (isOpen cb \<longrightarrow> isOpen cb') \<and> (atCompareAndSet p \<longrightarrow> isOpen cb')"
  using assms
  by (cases p) (auto simp: CompareAndSet_def split: if_splits)

lemma exec_racing:
  assumes "racing s" and "isCaller e"
  shows "racing (exec s e)"
proof -
  from assms(2) obtain i w where e: "e = Caller i w" by (cases e) auto
  show ?thesis
  proof (cases "i < length (callers s)")
    case False
    with e assms(1) show ?thesis by simp
  next
    case True
    obtain cb' p ts where step: "callerStep w (shared s) (callers s ! i) = (cb', p, ts)"
      by (cases "callerStep w (shared s) (callers s ! i)") auto
    have s': "exec s e = \<lparr>shared = cb', callers = (callers s)[i := p],
                 goroutines = goroutines s @ map (\<lambda>t. (t, Sleeping)) ts\<rparr>"
      using e True step by simp
    have old: "tripping (callers s ! i)"
      using assms(1) True by (simp add: racing_def)
    note new = callerStep_tripping [OF step old]
    have "isOpen cb'"
    proof (cases "isOpen (shared s)")
      case True
      with new show ?thesis by simp
    next
      case False
      with assms(1) True have "atCompareAndSet (callers s ! i)"
        by (simp add: racing_def)
      with new show ?thesis by simp
    qed
    moreover have "\<forall>q \<in> set ((callers s)[i := p]). tripping q"
      using assms(1) new by (auto simp: racing_def dest!: set_update_subset_insert [THEN subsetD])
    moreover have "(callers s)[i := p] \<noteq> []"
      using assms(1) by (simp add: racing_def)
    moreover have "\<forall>g \<in> set (goroutines s @ map (\<lambda>t. (t, Sleeping)) ts). snd g = Sleeping"
      using assms(1) by (auto simp: racing_def)
    ultimately show ?thesis
      unfolding s' racing_def by simp
  qed
qed

lemma execs_racing:
  assumes "racing s" and "\<forall>e \<in> set es. isCaller e"
  shows "racing (execs s es)"
  using assms unfolding execs_def
  by (induction es arbitrary: s) (simp_all add: exec_racing)

lemma race_has_one_winner:
  assumes "\<not> isOpen cb" and "ts \<noteq> []" and "\<forall>e \<in> set es. isCaller e"
    and "\<forall>p \<in> set (callers (execs \<lparr>shared = cb, callers = map AtCompareAndSet ts,
                                   goroutines = []\<rparr> es)). hasReturned p"
  shows "length (goroutines (execs \<lparr>shared = cb, callers = map AtCompareAndSet ts,
                                   goroutines = []\<rparr> es)) = 1
         \<and> isOpen (shared (execs \<lparr>shared = cb, callers = map AtCompareAndSet ts,
                                   goroutines = []\<rparr> es))
         \<and> (\<forall>p \<in> set (callers (execs \<lparr>shared = cb, callers = map AtCompareAndSet ts,
                                   goroutines = []\<rparr> es)). p = Returned False)"
proof -
  let ?init = "\<lparr>shared = cb, callers = map AtCompareAndSet ts, goroutines = []\<rparr>"
  let ?s = "execs ?init es"
  have "racing ?init"
    using assms(1,2) by (auto simp: racing_def)
  then have r: "racing ?s"
    using assms(3) by (rule execs_racing)
  have "pendingRecoveries ?init = (if isOpen (shared ?init) then 1 else 0)"
    using assms(1) by (simp add: pendingRecoveries_def sum_list_zero)
  then have p: "pendingRecoveries ?s = (if isOpen (shared ?s) then 1 else 0)"
    by (rule execs_pending)
  have returned: "\<forall>p \<in> set (callers ?s). p = Returned False"
  proof
    fix q assume q: "q \<in> set (callers ?s)"
    with r assms(4) have "tripping q" "hasReturned q" by (auto simp: racing_def)
    then show "q = Returned False" by (cases q) auto
  qed
  obtain q where q: "q \<in> set (callers ?s)"
    using r by (cases "callers ?s") (auto simp: racing_def)
  with returned have "\<not> atCompareAndSet q" by auto
  with q r have opened: "isOpen (shared ?s)" by (auto simp: racing_def)
  have "sum_list (map aboutToGo (callers ?s)) = 0"
    using returned by (intro sum_list_zero) auto
  moreover have "sum_list (map unfinished (goroutines ?s)) = length (goroutines ?s)"
  proof (intro sum_list_one ballI)
    fix g assume "g \<in> set (goroutines ?s)"
    with r have "snd g = Sleeping" by (simp add: racing_def)
    then show "unfinished g = 1" by (cases g) simp
  qed
  ultimately have "length (goroutines ?s) = 1"
    using p [unfolded pendingRecoveries_def] opened by (simp del: sum_list_eq_0_iff)
  with opened returned show ?thesis by blast
qed

text \<open>
  The interleaved steps are the steps of \<open>TryPass\<close>: a caller that runs alone from the
  open check returns within five steps, with the result of \<open>TryPass\<close>, leaving the
  breaker \<open>TryPass\<close> leaves and having started the goroutines \<open>TryPass\<close> starts.
\<close>

lemma started_append [simp]: "started (xs @ ys) = started xs @ started ys"
  by (induction xs rule: started.induct) simp_all

lemma resolveMetric_started:
  "resolveMetric w name r b = Inr (m, b1, es) \<Longrightarrow> started es = []"
  "resolveMetric w name r b = Inl es \<Longrightarrow> started es = []"
  by (auto simp: resolveMetric_def Let_def split: option.splits)

lemma errorRatio_judge_started: "started (snd (errorRatio_judge w m r)) = []"
  by (simp add: errorRatio_judge_def Let_def)

lemma errorCount_judge_started: "started (snd (errorCount_judge w m r)) = []"
  by (simp add: errorCount_judge_def Let_def)

lemma solo_averageRt:
  "solo 5 w (AverageRt b, AtGet, [])
     = (case averageRt_TryPass w b of (ok, b', es) \<Rightarrow> (AverageRt b', Returned ok, started es))"
  by (auto simp: numeral_eq_Suc averageRt_TryPass_def averageRt_judge_def trip_def
        CompareAndSet_def recoverTask_def Let_def IncrementAndGetInt64_def
        resolveMetric_started
      split: option.splits sum.splits prod.splits bool.splits if_splits
      dest!: resolveMetric_Inr)

lemma solo_errorRatio:
  "solo 5 w (ErrorRatio b, AtGet, [])
     = (case errorRatio_TryPass w b of (ok, b', es) \<Rightarrow> (ErrorRatio b', Returned ok, started es))"
  using errorRatio_judge_started
  by (auto simp: numeral_eq_Suc errorRatio_TryPass_def trip_def
        CompareAndSet_def recoverTask_def Let_def resolveMetric_started
      split: option.splits sum.splits prod.splits bool.splits if_splits
      dest!: resolveMetric_Inr)
     (metis snd_conv)+

lemma solo_errorCount:
  "solo 5 w (ErrorCount b, AtGet, [])
     = (case errorCount_TryPass w b of (ok, b', es) \<Rightarrow> (ErrorCount b', Returned ok, started es))"
  using errorCount_judge_started
  by (auto simp: numeral_eq_Suc errorCount_TryPass_def trip_def
        CompareAndSet_def recoverTask_def Let_def resolveMetric_started
      split: option.splits sum.splits prod.splits bool.splits if_splits
      dest!: resolveMetric_Inr)
     (metis snd_conv)+

lemma solo_TryPass:
  "solo 5 w (cb, AtGet, [])
     = (case TryPass w cb of (ok, cb', es) \<Rightarrow> (cb', Returned ok, started es))"
  by (cases cb) (simp_all add: solo_averageRt solo_errorRatio solo_errorCount split: prod.splits)

text \<open>
  Claim C2.  In every interleaving of any number of callers and recovery goroutines on a
  breaker that starts closed, the number of pending recoveries (callers that won the swap
  and are about to start their goroutine, plus goroutines that have not yet closed the
  breaker) is one while the breaker is open and zero while it is closed: each trip has
  exactly one recovery.  A goroutine is started only by a caller that won the swap; a
  caller whose swap finds the breaker open returns false, changes nothing and starts
  nothing; a caller whose swap finds it closed opens it.  When any number of callers
  (at least one) stand at their compare-and-swap on a closed breaker and run to their
  return in any order, exactly one goroutine has been started, the breaker is open and
  every caller has returned false.
\<close>

theorem single_recovery_per_trip:
  "(\<not> isOpen cb \<longrightarrow>
      pendingRecoveries (execs (start cb) es)
        = (if isOpen (shared (execs (start cb) es)) then 1 else 0))
   \<and> (callerStep w cb p = (cb', p', ts) \<and> ts \<noteq> [] \<longrightarrow> p = AtGo (hd ts) \<and> ts = [hd ts])
   \<and> (isOpen cb \<longrightarrow> callerStep w cb (AtCompareAndSet t) = (cb, Returned False, []))
   \<and> (\<not> isOpen cb \<longrightarrow> callerStep w cb (AtCompareAndSet t) = (setCut True cb, AtGo t, []))
   \<and> (\<not> isOpen cb \<and> tasks \<noteq> [] \<and> (\<forall>e \<in> set order. isCaller e)
        \<and> (\<forall>q \<in> set (callers (execs \<lparr>shared = cb, callers = map AtCompareAndSet tasks,
                                         goroutines = []\<rparr> order)). hasReturned q) \<longrightarrow>
        length (goroutines (execs \<lparr>shared = cb, callers = map AtCompareAndSet tasks,
                                   goroutines = []\<rparr> order)) = 1
        \<and> isOpen (shared (execs \<lparr>shared = cb, callers = map AtCompareAndSet tasks,
                                   goroutines = []\<rparr> order))
        \<and> (\<forall>q \<in> set (callers (execs \<lparr>shared = cb, callers = map AtCompareAndSet tasks,
                                         goroutines = []\<rparr> order)). q = Returned False))"
proof (intro conjI impI)
  assume "\<not> isOpen cb"
  then have "pendingRecoveries (start cb) = (if isOpen (shared (start cb)) then 1 else 0)"
    by (simp add: start_def pendingRecoveries_def)
  then show "pendingRecoveries (execs (start cb) es)
               = (if isOpen (shared (execs (start cb) es)) then 1 else 0)"
    by (rule execs_pending)
next
  assume "callerStep w cb p = (cb', p', ts) \<and> ts \<noteq> []"
  then show "p = AtGo (hd ts)" and "ts = [hd ts]"
    using callerStep_starts by blast+
next
  assume "isOpen cb"
  then show "callerStep w cb (AtCompareAndSet t) = (cb, Returned False, [])"
    by (rule callerStep_loser)
next
  assume "\<not> isOpen cb"
  then show "callerStep w cb (AtCompareAndSet t) = (setCut True cb, AtGo t, [])"
    by (rule callerStep_winner)
next
  assume h: "\<not> isOpen cb \<and> tasks \<noteq> [] \<and> (\<forall>e \<in> set order. isCaller e)
        \<and> (\<forall>q \<in> set (callers (execs \<lparr>shared = cb, callers = map AtCompareAndSet tasks,
                                         goroutines = []\<rparr> order)). hasReturned q)"
  then have r: "length (goroutines (execs \<lparr>shared = cb, callers = map AtCompareAndSet tasks,
                                   goroutines = []\<rparr> order)) = 1
        \<and> isOpen (shared (execs \<lparr>shared = cb, callers = map AtCompareAndSet tasks,
                                   goroutines = []\<rparr> order))
        \<and> (\<forall>q \<in> set (callers (execs \<lparr>shared = cb, callers = map AtCompareAndSet tasks,
                                         goroutines = []\<rparr> order)). q = Returned False)"
    by (intro race_has_one_winner) simp_all
  from r show "length (goroutines (execs \<lparr>shared = cb, callers = map AtCompareAndSet tasks,
                                   goroutines = []\<rparr> order)) = 1" by simp
  from r show "isOpen (shared (execs \<lparr>shared = cb, callers = map AtCompareAndSet tasks,
                                   goroutines = []\<rparr> order))" by simp
  from r show "\<forall>q \<in> set (callers (execs \<lparr>shared = cb, callers = map AtCompareAndSet tasks,
                                         goroutines = []\<rparr> order)). q = Returned False" by simp
qed

lemma race_result:
  "execs racers raceOrder
     = \<lparr>shared = ErrorRatio (ratioBreaker\<lparr>cut := True\<rparr>),
        callers = [Returned False, Returned False, Returned False],
        goroutines = [(recoverTask ratioRule False, Sleeping)]\<rparr>"
  by (simp add: execs_def racers_def raceOrder_def CompareAndSet_def ratioBreaker_fields)

lemma count_10_judged:
  "judgeStep (qps 0 0 10 0) (ErrorCount countBreaker)
     = (ErrorCount countBreaker, AtCompareAndSet (recoverTask countRule False))"
  by (simp add: countBreaker_fields resolveMetric_resolved errorCount_judge_def
        qps_def reading_def rates_def countRule_def f64_of_int64_10 num_lt)

lemma trip_result:
  "execs (start (ErrorCount countBreaker)) tripOrder
     = \<lparr>shared = ErrorCount (countBreaker\<lparr>cut := True\<rparr>),
        callers = [Returned False, Returned False],
        goroutines = [(recoverTask countRule False, Sleeping)]\<rparr>"
  by (simp add: execs_def start_def tripOrder_def CompareAndSet_def countBreaker_fields
        count_10_judged del: judgeStep.simps)

theorem single_recovery_per_trip_witness:
  "\<not> isOpen (ErrorCount countBreaker)
   \<and> execs (start (ErrorCount countBreaker)) tripOrder
       = \<lparr>shared = ErrorCount (countBreaker\<lparr>cut := True\<rparr>),
          callers = [Returned False, Returned False],
          goroutines = [(recoverTask countRule False, Sleeping)]\<rparr>
   \<and> pendingRecoveries (execs (start (ErrorCount countBreaker)) tripOrder) = 1
   \<and> \<not> isOpen (ErrorRatio ratioBreaker)
   \<and> list_all isCaller raceOrder
   \<and> list_all hasReturned (callers (execs racers raceOrder))
   \<and> length (goroutines (execs racers raceOrder)) = 1
   \<and> isOpen (shared (execs racers raceOrder))
   \<and> callers (execs racers raceOrder) = [Returned False, Returned False, Returned False]"
proof -
  have closed: "\<not> isOpen (ErrorCount countBreaker)" "\<not> isOpen (ErrorRatio ratioBreaker)"
    by (simp_all add: countBreaker_fields ratioBreaker_fields)
  have order: "list_all isCaller raceOrder"
    by (simp add: raceOrder_def)
  have returned: "list_all hasReturned (callers (execs racers raceOrder))"
    by (simp add: race_result)
  note general = single_recovery_per_trip
    [where cb = "ErrorCount countBreaker" and es = tripOrder and ts = "[]"]
  note race = single_recovery_per_trip
    [where cb = "ErrorRatio ratioBreaker" and order = raceOrder and ts = "[]"
       and tasks = "[recoverTask ratioRule False, recoverTask ratioRule False,
                     recoverTask ratioRule False]",
     folded racers_def]
  have "pendingRecoveries (execs (start (ErrorCount countBreaker)) tripOrder) = 1"
    using general closed(1) by (simp add: trip_result)
  moreover have "length (goroutines (execs racers raceOrder)) = 1
     \<and> isOpen (shared (execs racers raceOrder))"
    using race closed(2) order returned unfolding list_all_iff by blast
  moreover have "callers (execs racers raceOrder)
                   = [Returned False, Returned False, Returned False]"
    by (simp add: race_result)
  ultimately show ?thesis
    using closed order returned trip_result by blast
qed

section \<open>The error ratio strategy\<close>

lemma ratio_total_3_admits:
  "f64_add (GetQPS w 7 MetricEventPass) (GetQPS w 7 MetricEventBlock) = num 3
   \<Longrightarrow> errorRatio_TryPass w ratioBreaker = (True, ratioBreaker, qpsReads 7)"
  by (simp add: errorRatio_TryPass_closed [OF ratioBreaker_fields] errorRatio_judge_def
        ratioRule_def f64_of_int64_5 num_lt qpsReads_def)

lemma ratio_6_of_10_trips:
  "errorRatio_TryPass (qps 10 0 6 10) ratioBreaker
     = (False, ratioBreaker\<lparr>cut := True\<rparr>,
        qpsReads 7 @ [Divide (num 6) (num 10), CutCompareAndSet False True True,
                   Go (RecoverTask (time_Second * 1) False)])"
  by (simp add: errorRatio_TryPass_closed [OF ratioBreaker_fields] errorRatio_judge_def
        ratioRule_def qps_def reading_def rates_def qpsReads_def
        add_10_0 sub_10_6_positive div_6_10_not_below_half num_0 f64_of_int_0 f64_of_int64_5 num_lt)

lemma ratio_no_completions_admits:
  "errorRatio_TryPass (qps 10 0 2 0) ratioBreaker = (True, ratioBreaker, qpsReads 7)"
  by (simp add: errorRatio_TryPass_closed [OF ratioBreaker_fields] errorRatio_judge_def
        ratioRule_def qps_def reading_def rates_def qpsReads_def
        add_10_0 sub_0_2_not_positive num_0 f64_of_int_0 f64_of_int64_5 num_lt)

text \<open>
  Claim C3.  On a closed breaker with a rule and a resolved metric source, the ratio
  strategy reads the four rates and decides in this order: with \<open>total = pass + block\<close>
  below \<open>MinRequestAmount\<close> it admits; otherwise, with
  \<open>realComplete = complete - err\<close> at most 0 and \<open>err\<close> below \<open>MinRequestAmount\<close>
  it admits, without dividing; otherwise it divides and admits if \<open>err / complete\<close>
  is below the threshold, and else trips: it returns false, opens the breaker and starts
  the recovery goroutine.  The last branch is the one where the ratio is not below the
  threshold, which is the case whenever the ratio is at or above it.  For
  \<open>MinRequestAmount = 5\<close> and the threshold 0.5: every world whose total is 3 is
  admitted; total 10, 6 errors and 10 completions trip; total 10, no completion and 2
  errors are admitted without a division.
\<close>

theorem errorRatio_decision:
  "(\<not> cut b \<and> rule b = Some r \<and> metric b = Some m \<longrightarrow>
      (let err = GetQPS w m MetricEventError;
           compl = GetQPS w m MetricEventComplete;
           total = f64_add (GetQPS w m MetricEventPass) (GetQPS w m MetricEventBlock);
           minAmount = f64_of_int64 (MinRequestAmount r);
           realComplete = f64_sub compl err;
           ratio = f64_div err compl
       in (f64_lt total minAmount \<longrightarrow> errorRatio_TryPass w b = (True, b, qpsReads m))
        \<and> (\<not> f64_lt total minAmount
             \<and> f64_le realComplete (f64_of_int 0) \<and> f64_lt err minAmount \<longrightarrow>
             errorRatio_TryPass w b = (True, b, qpsReads m))
        \<and> (\<not> f64_lt total minAmount
             \<and> \<not> (f64_le realComplete (f64_of_int 0) \<and> f64_lt err minAmount)
             \<and> f64_lt ratio (errorRatioRule.Threshold r) \<longrightarrow>
             errorRatio_TryPass w b = (True, b, qpsReads m @ [Divide err compl]))
        \<and> (\<not> f64_lt total minAmount
             \<and> \<not> (f64_le realComplete (f64_of_int 0) \<and> f64_lt err minAmount)
             \<and> \<not> f64_lt ratio (errorRatioRule.Threshold r) \<longrightarrow>
             errorRatio_TryPass w b
               = (False, b\<lparr>cut := True\<rparr>,
                  qpsReads m @ [Divide err compl, CutCompareAndSet False True True,
                             Go (RecoverTask (time_Second * RecoverTimeout r) False)]))
        \<and> (\<not> f64_lt total minAmount
             \<and> \<not> (f64_le realComplete (f64_of_int 0) \<and> f64_lt err minAmount)
             \<and> f64_le (errorRatioRule.Threshold r) ratio \<longrightarrow>
             \<not> fst (errorRatio_TryPass w b) \<and> cut (fst (snd (errorRatio_TryPass w b))))))
   \<and> (f64_add (GetQPS w' 7 MetricEventPass) (GetQPS w' 7 MetricEventBlock) = num 3 \<longrightarrow>
        errorRatio_TryPass w' ratioBreaker = (True, ratioBreaker, qpsReads 7))
   \<and> errorRatio_TryPass (qps 10 0 6 10) ratioBreaker
       = (False, ratioBreaker\<lparr>cut := True\<rparr>,
          qpsReads 7 @ [Divide (num 6) (num 10), CutCompareAndSet False True True,
                     Go (RecoverTask (time_Second * 1) False)])
   \<and> errorRatio_TryPass (qps 10 0 2 0) ratioBreaker = (True, ratioBreaker, qpsReads 7)"
proof (intro conjI ratio_6_of_10_trips ratio_no_completions_admits)
  show "f64_add (GetQPS w' 7 MetricEventPass) (GetQPS w' 7 MetricEventBlock) = num 3 \<longrightarrow>
        errorRatio_TryPass w' ratioBreaker = (True, ratioBreaker, qpsReads 7)"
    by (simp add: ratio_total_3_admits)
next
  show "\<not> cut b \<and> rule b = Some r \<and> metric b = Some m \<longrightarrow>
      (let err = GetQPS w m MetricEventError;
           compl = GetQPS w m MetricEventComplete;
           total = f64_add (GetQPS w m MetricEventPass) (GetQPS w m MetricEventBlock);
           minAmount = f64_of_int64 (MinRequestAmount r);
           realComplete = f64_sub compl err;
           ratio = f64_div err compl
       in (f64_lt total minAmount \<longrightarrow> errorRatio_TryPass w b = (True, b, qpsReads m))
        \<and> (\<not> f64_lt total minAmount
             \<and> f64_le realComplete (f64_of_int 0) \<and> f64_lt err minAmount \<longrightarrow>
             errorRatio_TryPass w b = (True, b, qpsReads m))
        \<and> (\<not> f64_lt total minAmount
             \<and> \<not> (f64_le realComplete (f64_of_int 0) \<and> f64_lt err minAmount)
             \<and> f64_lt ratio (errorRatioRule.Threshold r) \<longrightarrow>
             errorRatio_TryPass w b = (True, b, qpsReads m @ [Divide err compl]))
        \<and> (\<not> f64_lt total minAmount
             \<and> \<not> (f64_le realComplete (f64_of_int 0) \<and> f64_lt err minAmount)
             \<and> \<not> f64_lt ratio (errorRatioRule.Threshold r) \<longrightarrow>
             errorRatio_TryPass w b
               = (False, b\<lparr>cut := True\<rparr>,
                  qpsReads m @ [Divide err compl, CutCompareAndSet False True True,
                             Go (RecoverTask (time_Second * RecoverTimeout r) False)]))
        \<and> (\<not> f64_lt total minAmount
             \<and> \<not> (f64_le realComplete (f64_of_int 0) \<and> f64_lt err minAmount)
             \<and> f64_le (errorRatioRule.Threshold r) ratio \<longrightarrow>
             \<not> fst (errorRatio_TryPass w b) \<and> cut (fst (snd (errorRatio_TryPass w b)))))"
    by (auto simp: errorRatio_TryPass_closed errorRatio_judge_def qpsReads_def Let_def
             dest: f64_le_not_lt)
qed

theorem errorRatio_decision_witness:
  "\<not> cut ratioBreaker \<and> rule ratioBreaker = Some ratioRule \<and> metric ratioBreaker = Some 7
   \<and> f64_lt (f64_add (num 1) (num 2)) (f64_of_int64 (MinRequestAmount ratioRule))
   \<and> errorRatio_TryPass (qps 1 2 3 3) ratioBreaker = (True, ratioBreaker, qpsReads 7)
   \<and> \<not> f64_lt (f64_add (num 10) (num 0)) (f64_of_int64 (MinRequestAmount ratioRule))
   \<and> f64_le (f64_sub (num 0) (num 2)) (f64_of_int 0)
   \<and> f64_lt (num 2) (f64_of_int64 (MinRequestAmount ratioRule))
   \<and> errorRatio_TryPass (qps 10 0 2 0) ratioBreaker = (True, ratioBreaker, qpsReads 7)
   \<and> \<not> f64_le (f64_sub (num 10) (num 2)) (f64_of_int 0)
   \<and> f64_lt (f64_div (num 2) (num 10)) (errorRatioRule.Threshold ratioRule)
   \<and> errorRatio_TryPass (qps 10 0 2 10) ratioBreaker
       = (True, ratioBreaker, qpsReads 7 @ [Divide (num 2) (num 10)])
   \<and> \<not> f64_le (f64_sub (num 10) (num 6)) (f64_of_int 0)
   \<and> \<not> f64_lt (f64_div (num 6) (num 10)) (errorRatioRule.Threshold ratioRule)
   \<and> errorRatio_TryPass (qps 10 0 6 10) ratioBreaker
       = (False, ratioBreaker\<lparr>cut := True\<rparr>,
          qpsReads 7 @ [Divide (num 6) (num 10), CutCompareAndSet False True True,
                        Go (RecoverTask (time_Second * 1) False)])"
proof -
  have add_1_2: "f64_add (num 1) (num 2) = num 3" by code_simp
  have a: "errorRatio_TryPass (qps 1 2 3 3) ratioBreaker = (True, ratioBreaker, qpsReads 7)"
    using errorRatio_decision [of ratioBreaker ratioRule 7 "qps 1 2 3 3" quiet]
    by (simp add: ratioBreaker_fields qps_def reading_def rates_def ratioRule_def
          add_1_2 f64_of_int64_5 num_lt Let_def)
  have b: "errorRatio_TryPass (qps 10 0 2 10) ratioBreaker
             = (True, ratioBreaker, qpsReads 7 @ [Divide (num 2) (num 10)])"
    using errorRatio_decision [of ratioBreaker ratioRule 7 "qps 10 0 2 10" quiet]
    by (simp add: ratioBreaker_fields qps_def reading_def rates_def ratioRule_def
          add_10_0 sub_10_2_positive div_2_10_below_half f64_of_int64_5 f64_of_int_0 num_0 num_lt Let_def)
  show ?thesis
    using a b errorRatio_decision [of ratioBreaker ratioRule 7 "qps 10 0 6 10" quiet]
    by (simp add: ratioBreaker_fields ratioRule_def add_1_2 add_10_0 sub_10_6_positive sub_10_2_positive sub_0_2_not_positive
          div_2_10_below_half div_6_10_not_below_half f64_of_int64_5 f64_of_int_0 num_0 num_lt)
qed

section \<open>The guard before the division\<close>

lemma resolveMetric_no_Divide:
  "resolveMetric w name r b = Inr (m, b1, es) \<Longrightarrow> Divide e c \<notin> set es"
  "resolveMetric w name r b = Inl es \<Longrightarrow> Divide e c \<notin> set es"
  by (auto simp: resolveMetric_def Let_def split: option.splits)

lemma trip_no_Divide: "trip reset r b = (b', es) \<Longrightarrow> Divide e c \<notin> set es"
  by (auto simp: trip_def CompareAndSet_def split: if_splits)

lemma errorRatio_judge_Divide:
  assumes "errorRatio_judge w m r = (ok, es)" and "Divide e c \<in> set es"
  shows "e = GetQPS w m MetricEventError \<and> c = GetQPS w m MetricEventComplete
         \<and> \<not> (f64_le (f64_sub c e) (f64_of_int 0) \<and> f64_lt e (f64_of_int64 (MinRequestAmount r)))"
  using assms by (auto simp: errorRatio_judge_def Let_def split: if_splits)

lemma errorRatio_TryPass_Divide:
  assumes "rule b = Some r" and "Divide e c \<in> set (snd (snd (errorRatio_TryPass w b)))"
  shows "\<not> (f64_le (f64_sub c e) (f64_of_int 0) \<and> f64_lt e (f64_of_int64 (MinRequestAmount r)))"
  using assms
  by (auto simp: errorRatio_TryPass_def
           split: if_splits sum.splits prod.splits bool.splits
           dest: resolveMetric_no_Divide trip_no_Divide errorRatio_judge_Divide)

text \<open>
  Claim C4, as stated, fails: the guard \<open>realComplete <= 0\<close> is tied to
  \<open>err < MinRequestAmount\<close>, and with 10 requests, 5 errors and no completion under
  \<open>MinRequestAmount = 5\<close> the division \<open>5 / 0\<close> is reached.
\<close>

theorem division_unguarded_counterexample:
  "Divide (num 5) (num 0) \<in> set (snd (snd (errorRatio_TryPass (qps 10 0 5 0) ratioBreaker)))
   \<and> is_zero (num 0)"
  by (simp add: errorRatio_TryPass_closed [OF ratioBreaker_fields] errorRatio_judge_def
        ratioRule_def qps_def reading_def rates_def add_10_0 f64_of_int64_5 num_lt
        is_zero_def num_0 div_5_0 Let_def)

text \<open>
  Claim C4, amended.  The guard is evaluated before the division and protects it for
  error rates below \<open>MinRequestAmount\<close>: whenever the division \<open>err / complete\<close>
  is reached with \<open>0 \<le> err\<close> and \<open>err\<close> below \<open>MinRequestAmount\<close>, \<open>complete\<close>
  is not zero.
\<close>

theorem division_guarded_below_minimum:
  assumes "rule b = Some r"
    and "Divide e c \<in> set (snd (snd (errorRatio_TryPass w b)))"
    and "f64_le (Finite False 0) e"
    and "f64_lt e (f64_of_int64 (MinRequestAmount r))"
  shows "\<not> is_zero c"
proof
  assume "is_zero c"
  then have "f64_le (f64_sub c e) (Finite False 0)"
    using assms(3) by (rule zero_minus_nonneg)
  with assms(4) errorRatio_TryPass_Divide [OF assms(1,2)] show False
    by (simp add: f64_of_int_0)
qed

theorem division_guarded_below_minimum_witness:
  "rule ratioBreaker = Some ratioRule
   \<and> Divide (num 2) (num 10) \<in> set (snd (snd (errorRatio_TryPass (qps 10 0 2 10) ratioBreaker)))
   \<and> f64_le (Finite False 0) (num 2)
   \<and> f64_lt (num 2) (f64_of_int64 (MinRequestAmount ratioRule))
   \<and> \<not> is_zero (num 10)"
proof -
  have h: "rule ratioBreaker = Some ratioRule"
    "Divide (num 2) (num 10) \<in> set (snd (snd (errorRatio_TryPass (qps 10 0 2 10) ratioBreaker)))"
    "f64_le (Finite False 0) (num 2)"
    "f64_lt (num 2) (f64_of_int64 (MinRequestAmount ratioRule))"
    by (simp_all add: errorRatio_TryPass_closed [OF ratioBreaker_fields] errorRatio_judge_def
          ratioBreaker_fields ratioRule_def qps_def reading_def rates_def Let_def
          add_10_0 sub_10_2_positive f64_of_int64_5 f64_of_int_0 num_0 num_lt zero_le_num)
  show ?thesis
    using h division_guarded_below_minimum [OF h] by simp
qed

section \<open>The latency strategy\<close>

lemma latency_run_trips:
  "calls (AverageRt latencyBreaker) [slow, slow, slow]
     = ([True, True, False], AverageRt (latencyBreaker\<lparr>passCount := 3, cut := True\<rparr>))"
  by (simp add: latencyBreaker_def newAverageRtCircuitBreakerWithMetric_def
        newBreakerWithMetric_def latencyRule_def slow_def reading_def num_def
        averageRt_TryPass_closed averageRt_judge_def IncrementAndGetInt64_def signed_def)

lemma latency_run_forgives:
  "calls (AverageRt latencyBreaker) [slow, slow, fast]
     = ([True, True, True], AverageRt (latencyBreaker\<lparr>passCount := 0\<rparr>))"
  by (simp add: latencyBreaker_def newAverageRtCircuitBreakerWithMetric_def
        newBreakerWithMetric_def latencyRule_def slow_def fast_def reading_def num_def
        averageRt_TryPass_closed averageRt_judge_def IncrementAndGetInt64_def signed_def)

text \<open>
  Claim C5.  On a closed breaker with a rule and a resolved metric source, the latency
  strategy reads the average latency.  Below the threshold it stores 0 in the debounce
  counter and admits.  Otherwise (the average is at or above the threshold, or is not
  comparable with it) it increments the counter; while the incremented value is below
  \<open>RtSlowRequestAmount\<close> it still admits, and else it trips: it returns false, opens
  the breaker and starts the recovery goroutine.  With the threshold 100 and the
  tolerance 3, of three calls that read 150 the first two are admitted and the third
  trips; and a call that reads 50 after two that read 150 leaves the counter at 0.
\<close>

theorem averageRt_decision:
  "(\<not> cut b \<and> rule b = Some r \<and> metric b = Some m \<longrightarrow>
      (f64_lt (AvgRT w m) (averageRtRule.Threshold r) \<longrightarrow>
         averageRt_TryPass w b
           = (True, b\<lparr>passCount := 0\<rparr>, [ReadAvgRT m, StorePassCount 0]))
    \<and> (\<not> f64_lt (AvgRT w m) (averageRtRule.Threshold r)
         \<and> sint (passCount b + 1) < sint (RtSlowRequestAmount r) \<longrightarrow>
         averageRt_TryPass w b
           = (True, b\<lparr>passCount := passCount b + 1\<rparr>, [ReadAvgRT m, IncrementPassCount]))
    \<and> (\<not> f64_lt (AvgRT w m) (averageRtRule.Threshold r)
         \<and> \<not> sint (passCount b + 1) < sint (RtSlowRequestAmount r) \<longrightarrow>
         averageRt_TryPass w b
           = (False, b\<lparr>passCount := passCount b + 1, cut := True\<rparr>,
              [ReadAvgRT m, IncrementPassCount, CutCompareAndSet False True True,
               Go (RecoverTask (time_Second * RecoverTimeout r) True)])))
   \<and> calls (AverageRt latencyBreaker) [slow, slow, slow]
       = ([True, True, False], AverageRt (latencyBreaker\<lparr>passCount := 3, cut := True\<rparr>))
   \<and> calls (AverageRt latencyBreaker) [slow, slow, fast]
       = ([True, True, True], AverageRt (latencyBreaker\<lparr>passCount := 0\<rparr>))"
  by (intro conjI latency_run_trips latency_run_forgives)
     (simp add: averageRt_TryPass_closed averageRt_judge_def IncrementAndGetInt64_def)

theorem averageRt_decision_witness:
  "\<not> cut latencyBreaker \<and> rule latencyBreaker = Some latencyRule
   \<and> metric latencyBreaker = Some 7
   \<and> f64_lt (AvgRT fast 7) (averageRtRule.Threshold latencyRule)
   \<and> averageRt_TryPass fast (latencyBreaker\<lparr>passCount := 2\<rparr>)
       = (True, latencyBreaker\<lparr>passCount := 0\<rparr>, [ReadAvgRT 7, StorePassCount 0])
   \<and> \<not> f64_lt (AvgRT slow 7) (averageRtRule.Threshold latencyRule)
   \<and> sint (passCount latencyBreaker + 1) < sint (RtSlowRequestAmount latencyRule)
   \<and> averageRt_TryPass slow latencyBreaker
       = (True, latencyBreaker\<lparr>passCount := 1\<rparr>, [ReadAvgRT 7, IncrementPassCount])
   \<and> \<not> sint (passCount (latencyBreaker\<lparr>passCount := 2\<rparr>) + 1)
          < sint (RtSlowRequestAmount latencyRule)
   \<and> averageRt_TryPass slow (latencyBreaker\<lparr>passCount := 2\<rparr>)
       = (False, latencyBreaker\<lparr>passCount := 3, cut := True\<rparr>,
          [ReadAvgRT 7, IncrementPassCount, CutCompareAndSet False True True,
           Go (RecoverTask (time_Second * 1) True)])"
  using averageRt_decision [of "latencyBreaker\<lparr>passCount := 2\<rparr>" latencyRule 7 fast]
    averageRt_decision [of latencyBreaker latencyRule 7 slow]
    averageRt_decision [of "latencyBreaker\<lparr>passCount := 2\<rparr>" latencyRule 7 slow]
  by (simp add: latencyBreaker_fields slow_def fast_def reading_def latencyRule_def num_lt)

section \<open>Recovery\<close>

lemma resolveMetric_no_Go:
  "resolveMetric w name r b = Inr (m, b1, es) \<Longrightarrow> Go t \<notin> set es"
  "resolveMetric w name r b = Inl es \<Longrightarrow> Go t \<notin> set es"
  by (auto simp: resolveMetric_def Let_def split: option.splits)

lemma trip_Go:
  "trip reset r b = (b', es) \<Longrightarrow> Go t \<in> set es \<Longrightarrow>
     t = RecoverTask (time_Second * RecoverTimeout r) reset"
  by (auto simp: trip_def CompareAndSet_def split: if_splits)

lemma averageRt_judge_no_Go:
  "averageRt_judge w m r b = (ok, b', es) \<Longrightarrow> Go t \<notin> set es"
  by (auto simp: averageRt_judge_def Let_def split: if_splits)

lemma errorRatio_judge_no_Go:
  "errorRatio_judge w m r = (ok, es) \<Longrightarrow> Go t \<notin> set es"
  by (auto simp: errorRatio_judge_def Let_def split: if_splits)

lemma errorCount_judge_no_Go:
  "errorCount_judge w m r = (ok, es) \<Longrightarrow> Go t \<notin> set es"
  by (auto simp: errorCount_judge_def Let_def)

lemma averageRt_TryPass_Go:
  assumes "Go t \<in> set (snd (snd (averageRt_TryPass w b)))"
  shows "\<exists>r. rule b = Some r \<and> t = RecoverTask (time_Second * RecoverTimeout r) True"
  using assms
  by (auto simp: averageRt_TryPass_def
           split: if_splits option.splits sum.splits prod.splits bool.splits
           dest: resolveMetric_no_Go averageRt_judge_no_Go trip_Go)

lemma errorRatio_TryPass_Go:
  assumes "Go t \<in> set (snd (snd (errorRatio_TryPass w b)))"
  shows "\<exists>r. rule b = Some r \<and> t = RecoverTask (time_Second * RecoverTimeout r) False"
  using assms
  by (auto simp: errorRatio_TryPass_def
           split: if_splits option.splits sum.splits prod.splits bool.splits
           dest: resolveMetric_no_Go errorRatio_judge_no_Go trip_Go)

lemma errorCount_TryPass_Go:
  assumes "Go t \<in> set (snd (snd (errorCount_TryPass w b)))"
  shows "\<exists>r. rule b = Some r \<and> t = RecoverTask (time_Second * RecoverTimeout r) False"
  using assms
  by (auto simp: errorCount_TryPass_def
           split: if_splits option.splits sum.splits prod.splits bool.splits
           dest: resolveMetric_no_Go errorCount_judge_no_Go trip_Go)

lemma TryPass_Go:
  assumes "Go t \<in> set (snd (snd (TryPass w cb)))"
  shows "\<exists>timeout. ruleRecoverTimeout cb = Some timeout
           \<and> t = RecoverTask (time_Second * timeout) (isLatency cb)"
proof (cases cb)
  case (AverageRt b)
  with assms averageRt_TryPass_Go [of t w b] show ?thesis
    by (auto split: prod.splits)
next
  case (ErrorRatio b)
  with assms errorRatio_TryPass_Go [of t w b] show ?thesis
    by (auto split: prod.splits)
next
  case (ErrorCount b)
  with assms errorCount_TryPass_Go [of t w b] show ?thesis
    by (auto split: prod.splits)
qed

text \<open>The body of the goroutine, run without interruption.\<close>

lemma recover_violationCount:
  "violationCount cb = 0 \<or> resetPassCount t \<Longrightarrow> violationCount (fst (recover t cb)) = 0"
  by (cases cb) (auto simp: runTask_def split: prod.splits if_splits)

lemma recover_closes: "\<not> isOpen (fst (recover t cb))"
  by (cases cb) (auto simp: runTask_def split: prod.splits if_splits)

lemma recover_reads_nothing: "e \<in> set (snd (recover t cb)) \<Longrightarrow> \<not> readsMetric e"
  by (cases cb) (auto simp: runTask_def split: prod.splits if_splits)

text \<open>
  No step changes the rule or the strategy of the breaker, so no step changes the goroutine
  it starts; and no step of the ratio or the count strategy writes the counter.
\<close>

lemma theTask_setCut [simp]: "theTask (setCut c cb) = theTask cb"
  by (cases cb) (simp_all add: theTask_def)

lemma theTask_setPassCount [simp]: "theTask (setPassCount v cb) = theTask cb"
  by (cases cb) (simp_all add: theTask_def)

lemma isLatency_setCut [simp]: "isLatency (setCut c cb) = isLatency cb"
  by (cases cb) simp_all

lemma isLatency_setPassCount [simp]: "isLatency (setPassCount v cb) = isLatency cb"
  by (cases cb) simp_all

lemma violationCount_setCut [simp]: "violationCount (setCut c cb) = violationCount cb"
  by (cases cb) simp_all

lemma violationCount_setPassCount [simp]: "violationCount (setPassCount v cb) = v"
  by (cases cb) simp_all

lemma judgeStep_sound:
  assumes "judgeStep w cb = (cb', p)"
  shows "theTask cb' = theTask cb \<and> isLatency cb' = isLatency cb
         \<and> violationCount cb' = violationCount cb
         \<and> (\<forall>t \<in> set (pcTasks p). theTask cb = Some t)
         \<and> (writesCounter p \<longrightarrow> isLatency cb)"
  using assms
  by (cases cb)
     (auto simp: theTask_def recoverTask_def
           split: option.splits sum.splits prod.splits if_splits
           dest!: resolveMetric_Inr)

lemma callerStep_sound:
  assumes "callerStep w cb p = (cb', p', ts)"
    and "\<forall>t \<in> set (pcTasks p). theTask cb = Some t"
    and "writesCounter p \<longrightarrow> isLatency cb"
    and "\<not> isLatency cb \<longrightarrow> violationCount cb = 0"
  shows "theTask cb' = theTask cb \<and> isLatency cb' = isLatency cb
         \<and> (\<forall>t \<in> set (pcTasks p'). theTask cb = Some t)
         \<and> (\<forall>t \<in> set ts. theTask cb = Some t)
         \<and> (writesCounter p' \<longrightarrow> isLatency cb)
         \<and> (\<not> isLatency cb \<longrightarrow> violationCount cb' = 0)"
  using assms
  by (cases p)
     (auto simp: CompareAndSet_def Let_def split: prod.splits if_splits
           dest!: judgeStep_sound)

lemma goroutineStep_sound:
  assumes "goroutineStep cb g = (cb', g')"
    and "theTask cb = Some (fst g)" and "snd g = AtReset \<longrightarrow> resetPassCount (fst g)"
    and "\<not> isLatency cb \<longrightarrow> violationCount cb = 0"
  shows "theTask cb' = theTask cb \<and> isLatency cb' = isLatency cb
         \<and> fst g' = fst g \<and> (snd g' = AtReset \<longrightarrow> resetPassCount (fst g'))
         \<and> (\<not> isLatency cb \<longrightarrow> violationCount cb' = 0)"
  using assms
  by (cases g; cases "snd g") (auto split: if_splits)

lemma exec_sound:
  assumes "sound s"
  shows "sound (exec s e)
         \<and> theTask (shared (exec s e)) = theTask (shared s)
         \<and> isLatency (shared (exec s e)) = isLatency (shared s)"
proof (cases e)
  case Enter
  with assms show ?thesis by (simp add: sound_def)
next
  case (Caller i w)
  show ?thesis
  proof (cases "i < length (callers s)")
    case False
    with Caller assms show ?thesis by simp
  next
    case True
    obtain cb' p ts where step: "callerStep w (shared s) (callers s ! i) = (cb', p, ts)"
      by (cases "callerStep w (shared s) (callers s ! i)") auto
    have s': "exec s e = \<lparr>shared = cb', callers = (callers s)[i := p],
                 goroutines = goroutines s @ map (\<lambda>t. (t, Sleeping)) ts\<rparr>"
      using Caller True step by simp
    have old: "\<forall>t \<in> set (pcTasks (callers s ! i)). theTask (shared s) = Some t"
      "writesCounter (callers s ! i) \<longrightarrow> isLatency (shared s)"
      "\<not> isLatency (shared s) \<longrightarrow> violationCount (shared s) = 0"
      using assms True by (auto simp: sound_def)
    note new = callerStep_sound [OF step old]
    have "\<forall>q \<in> set ((callers s)[i := p]).
            (\<forall>t \<in> set (pcTasks q). theTask cb' = Some t)
            \<and> (writesCounter q \<longrightarrow> isLatency cb')"
      using assms new
      by (auto simp: sound_def dest!: set_update_subset_insert [THEN subsetD])
    moreover have "\<forall>g \<in> set (goroutines s @ map (\<lambda>t. (t, Sleeping)) ts).
            theTask cb' = Some (fst g) \<and> (snd g = AtReset \<longrightarrow> resetPassCount (fst g))"
      using assms new by (auto simp: sound_def)
    moreover have "\<not> isLatency cb' \<longrightarrow> violationCount cb' = 0"
      using new by simp
    ultimately show ?thesis
      unfolding s' sound_def using new by simp
  qed
next
  case (Goroutine j)
  show ?thesis
  proof (cases "j < length (goroutines s)")
    case False
    with Goroutine assms show ?thesis by simp
  next
    case True
    obtain cb' g where step: "goroutineStep (shared s) (goroutines s ! j) = (cb', g)"
      by (cases "goroutineStep (shared s) (goroutines s ! j)") auto
    have s': "exec s e = \<lparr>shared = cb', callers = callers s,
                 goroutines = (goroutines s)[j := g]\<rparr>"
      using Goroutine True step by simp
    have old: "theTask (shared s) = Some (fst (goroutines s ! j))"
      "snd (goroutines s ! j) = AtReset \<longrightarrow> resetPassCount (fst (goroutines s ! j))"
      "\<not> isLatency (shared s) \<longrightarrow> violationCount (shared s) = 0"
      using assms True by (auto simp: sound_def)
    note new = goroutineStep_sound [OF step old]
    have "\<forall>q \<in> set (callers s).
            (\<forall>t \<in> set (pcTasks q). theTask cb' = Some t)
            \<and> (writesCounter q \<longrightarrow> isLatency cb')"
      using assms new by (auto simp: sound_def)
    moreover have "\<forall>h \<in> set ((goroutines s)[j := g]).
            theTask cb' = Some (fst h) \<and> (snd h = AtReset \<longrightarrow> resetPassCount (fst h))"
      using assms new old
      by (auto simp: sound_def dest!: set_update_subset_insert [THEN subsetD])
    moreover have "\<not> isLatency cb' \<longrightarrow> violationCount cb' = 0"
      using new by simp
    ultimately show ?thesis
      unfolding s' sound_def using new by simp
  qed
qed

lemma execs_sound:
  assumes "sound s"
  shows "sound (execs s es)
         \<and> theTask (shared (execs s es)) = theTask (shared s)
         \<and> isLatency (shared (execs s es)) = isLatency (shared s)"
  using assms unfolding execs_def
proof (induction es arbitrary: s)
  case Nil
  then show ?case by simp
next
  case (Cons e es)
  from exec_sound [OF Cons.prems, of e] Cons.IH [of "exec s e"]
  show ?case by simp
qed

lemma start_sound: "fresh cb \<Longrightarrow> sound (start cb)"
  by (simp add: sound_def start_def fresh_def)

lemma theTask_sleep:
  assumes "theTask cb = Some t"
  shows "\<exists>timeout. ruleRecoverTimeout cb = Some timeout
           \<and> sleep t = time_Second * timeout \<and> resetPassCount t = isLatency cb
           \<and> (0 \<le> sint timeout \<and> sint timeout \<le> 9223372036 \<longrightarrow>
                sint (sleep t) = 1000000000 * sint timeout)"
  using assms sleep_seconds by (auto simp: theTask_def)

lemma TryPass_theTask:
  "Go t \<in> set (snd (snd (TryPass w cb))) \<Longrightarrow> theTask cb = Some t"
  using TryPass_Go [of t w cb] by (auto simp: theTask_def)

lemma goroutine_alone:
  assumes "j < length (goroutines s)" and "goroutines s ! j = (t, Sleeping)"
  shows "execs s [Goroutine j, Goroutine j, Goroutine j]
           = \<lparr>shared = fst (recover t (shared s)), callers = callers s,
              goroutines = (goroutines s)[j := (t, Finished)]\<rparr>"
  using assms
  by (cases "shared s")
     (auto simp: execs_def runTask_def split: prod.splits)

lemma judge_slow:
  "rule b = Some latencyRule \<Longrightarrow> metric b = Some 7 \<Longrightarrow>
     judgeStep slow (AverageRt b) = (AverageRt b, AtIncrement 3 (recoverTask latencyRule True))"
  by (simp add: resolveMetric_resolved slow_def reading_def latencyRule_def num_lt)

lemma stale_result:
  "execs (start (AverageRt latencyBreaker)) staleOrder
     = \<lparr>shared = AverageRt (latencyBreaker\<lparr>passCount := 1\<rparr>),
        callers = [Returned True, Returned True, Returned False, Returned True],
        goroutines = [(recoverTask latencyRule True, Finished)]\<rparr>"
  by (simp add: execs_def start_def staleOrder_def judge_slow latencyBreaker_fields
        CompareAndSet_def IncrementAndGetInt64_def recoverTask_def
        del: judgeStep.simps)

text \<open>
  Claim C6, as stated, fails.  The goroutine of the latency strategy stores 0 in the
  counter and then sets the indicator false, in two atomic operations (lines 87 and 88).
  A caller that passed the open check before the trip can increment the counter between
  the two: of four callers reading 150, three trip the breaker and the fourth increments
  after the store, so the goroutine finishes with the breaker closed and the counter at 1.
  And the sleep is an \<open>int64\<close> product: for a \<open>RecoverTimeout\<close> of 9223372037 it is
  negative, which is no wait at all.
\<close>

theorem recovery_race_counterexample:
  "execs (start (AverageRt latencyBreaker)) staleOrder
     = \<lparr>shared = AverageRt (latencyBreaker\<lparr>passCount := 1\<rparr>),
        callers = [Returned True, Returned True, Returned False, Returned True],
        goroutines = [(recoverTask latencyRule True, Finished)]\<rparr>
   \<and> violationCount (shared (execs (start (AverageRt latencyBreaker)) staleOrder)) = 1
   \<and> \<not> isOpen (shared (execs (start (AverageRt latencyBreaker)) staleOrder))
   \<and> RecoverTimeout longRule = 9223372037
   \<and> sint (sleep (recoverTask longRule True)) < 0"
  by (simp add: stale_result latencyBreaker_fields longRule_def recoverTask_def
        time_Second_def latencyRule_def)

text \<open>
  Claim C6, amended.  In every interleaving from a constructed breaker of any strategy,
  every recovery goroutine sleeps for \<open>time.Second\<close> times the rule's
  \<open>RecoverTimeout\<close>, which is \<open>RecoverTimeout\<close> seconds in nanoseconds when the
  product does not overflow (\<open>RecoverTimeout\<close> from 0 to 9223372036); it stores the
  counter only in the latency strategy, and the counter of the other two strategies is
  zero throughout.  Its steps take nothing from the metric source.  The store leaves the
  counter zero; the \<open>Set\<close> leaves the indicator false and the counter as it finds
  it.  So when no caller steps in between (the goroutine runs alone from its wake to its
  end) it leaves the indicator false and the counter zero, by the store in the latency
  strategy and because it was zero in the other two.
\<close>

theorem recovery_goroutine:
  "(fresh cb \<longrightarrow>
      (\<forall>g \<in> set (goroutines (execs (start cb) es)).
         \<exists>timeout. ruleRecoverTimeout cb = Some timeout
           \<and> sleep (fst g) = time_Second * timeout
           \<and> resetPassCount (fst g) = isLatency cb
           \<and> (0 \<le> sint timeout \<and> sint timeout \<le> 9223372036 \<longrightarrow>
                sint (sleep (fst g)) = 1000000000 * sint timeout))
      \<and> (\<not> isLatency cb \<longrightarrow> violationCount (shared (execs (start cb) es)) = 0))
   \<and> (j < length (goroutines s) \<and> goroutines s ! j = (t, AtReset) \<longrightarrow>
        exec s (Goroutine j)
          = \<lparr>shared = setPassCount 0 (shared s), callers = callers s,
             goroutines = (goroutines s)[j := (t, AtSet)]\<rparr>
        \<and> violationCount (shared (exec s (Goroutine j))) = 0)
   \<and> (j < length (goroutines s) \<and> goroutines s ! j = (t, AtSet) \<longrightarrow>
        exec s (Goroutine j)
          = \<lparr>shared = setCut False (shared s), callers = callers s,
             goroutines = (goroutines s)[j := (t, Finished)]\<rparr>
        \<and> \<not> isOpen (shared (exec s (Goroutine j)))
        \<and> violationCount (shared (exec s (Goroutine j))) = violationCount (shared s))
   \<and> (j < length (goroutines s) \<and> goroutines s ! j = (t, Sleeping) \<longrightarrow>
        execs s [Goroutine j, Goroutine j, Goroutine j]
          = \<lparr>shared = fst (recover t (shared s)), callers = callers s,
             goroutines = (goroutines s)[j := (t, Finished)]\<rparr>
        \<and> \<not> isOpen (fst (recover t (shared s)))
        \<and> (resetPassCount t \<or> violationCount (shared s) = 0 \<longrightarrow>
             violationCount (fst (recover t (shared s))) = 0)
        \<and> (\<forall>e \<in> set (snd (recover t (shared s))). \<not> readsMetric e))"
proof (intro conjI impI ballI)
  fix g
  assume cb: "fresh cb" and g: "g \<in> set (goroutines (execs (start cb) es))"
  from cb have "sound (start cb)" by (rule start_sound)
  from execs_sound [OF this, of es]
  have "sound (execs (start cb) es)" and "theTask (shared (execs (start cb) es)) = theTask cb"
    by (simp_all add: start_def)
  with g have "theTask cb = Some (fst g)"
    by (auto simp: sound_def)
  then show "\<exists>timeout. ruleRecoverTimeout cb = Some timeout
           \<and> sleep (fst g) = time_Second * timeout
           \<and> resetPassCount (fst g) = isLatency cb
           \<and> (0 \<le> sint timeout \<and> sint timeout \<le> 9223372036 \<longrightarrow>
                sint (sleep (fst g)) = 1000000000 * sint timeout)"
    by (rule theTask_sleep)
next
  assume cb: "fresh cb" and other: "\<not> isLatency cb"
  from cb have "sound (start cb)" by (rule start_sound)
  from execs_sound [OF this, of es]
  have "sound (execs (start cb) es)"
    and "isLatency (shared (execs (start cb) es)) = isLatency cb"
    by (simp_all add: start_def)
  with other show "violationCount (shared (execs (start cb) es)) = 0"
    by (simp add: sound_def)
next
  assume "j < length (goroutines s) \<and> goroutines s ! j = (t, AtReset)"
  then show "exec s (Goroutine j)
          = \<lparr>shared = setPassCount 0 (shared s), callers = callers s,
             goroutines = (goroutines s)[j := (t, AtSet)]\<rparr>"
    and "violationCount (shared (exec s (Goroutine j))) = 0"
    by simp_all
next
  assume "j < length (goroutines s) \<and> goroutines s ! j = (t, AtSet)"
  then show "exec s (Goroutine j)
          = \<lparr>shared = setCut False (shared s), callers = callers s,
             goroutines = (goroutines s)[j := (t, Finished)]\<rparr>"
    and "\<not> isOpen (shared (exec s (Goroutine j)))"
    and "violationCount (shared (exec s (Goroutine j))) = violationCount (shared s)"
    by simp_all
next
  assume "j < length (goroutines s) \<and> goroutines s ! j = (t, Sleeping)"
  then show "execs s [Goroutine j, Goroutine j, Goroutine j]
          = \<lparr>shared = fst (recover t (shared s)), callers = callers s,
             goroutines = (goroutines s)[j := (t, Finished)]\<rparr>"
    by (simp add: goroutine_alone)
next
  show "\<not> isOpen (fst (recover t (shared s)))"
    by (rule recover_closes)
next
  assume "resetPassCount t \<or> violationCount (shared s) = 0"
  then show "violationCount (fst (recover t (shared s))) = 0"
    by (auto intro: recover_violationCount)
next
  fix e assume "e \<in> set (snd (recover t (shared s)))"
  then show "\<not> readsMetric e"
    by (rule recover_reads_nothing)
qed

lemma calm_result:
  "execs (start (AverageRt latencyBreaker)) calmOrder
     = \<lparr>shared = AverageRt (latencyBreaker\<lparr>passCount := 3, cut := True\<rparr>),
        callers = [Returned True, Returned True, Returned False],
        goroutines = [(recoverTask latencyRule True, Sleeping)]\<rparr>"
  by (simp add: execs_def start_def calmOrder_def judge_slow latencyBreaker_fields
        CompareAndSet_def IncrementAndGetInt64_def recoverTask_def
        del: judgeStep.simps)

lemma latencyBreaker_restored:
  "latencyBreaker\<lparr>passCount := 0, cut := False\<rparr> = latencyBreaker"
  by (simp add: latencyBreaker_def newAverageRtCircuitBreakerWithMetric_def
        newBreakerWithMetric_def)

theorem recovery_goroutine_witness:
  "fresh (AverageRt latencyBreaker)
   \<and> execs (start (AverageRt latencyBreaker)) calmOrder
       = \<lparr>shared = AverageRt (latencyBreaker\<lparr>passCount := 3, cut := True\<rparr>),
          callers = [Returned True, Returned True, Returned False],
          goroutines = [(recoverTask latencyRule True, Sleeping)]\<rparr>
   \<and> ruleRecoverTimeout (AverageRt latencyBreaker) = Some 1
   \<and> sint (sleep (recoverTask latencyRule True)) = 1000000000
   \<and> execs (execs (start (AverageRt latencyBreaker)) calmOrder)
        [Goroutine 0, Goroutine 0, Goroutine 0]
       = \<lparr>shared = AverageRt latencyBreaker,
          callers = [Returned True, Returned True, Returned False],
          goroutines = [(recoverTask latencyRule True, Finished)]\<rparr>
   \<and> violationCount (AverageRt latencyBreaker) = 0
   \<and> \<not> isOpen (AverageRt latencyBreaker)"
proof -
  let ?t = "recoverTask latencyRule True"
  let ?s = "execs (start (AverageRt latencyBreaker)) calmOrder"
  have cb: "fresh (AverageRt latencyBreaker)"
    by (simp add: fresh_def latencyBreaker_fields)
  have timeout: "ruleRecoverTimeout (AverageRt latencyBreaker) = Some 1"
    by (simp add: latencyBreaker_fields latencyRule_def)
  have g: "0 < length (goroutines ?s) \<and> goroutines ?s ! 0 = (?t, Sleeping)"
    by (simp add: calm_result)
  note inst = recovery_goroutine
    [where cb = "AverageRt latencyBreaker" and es = calmOrder and s = ?s and j = 0 and t = ?t]
  from inst cb have "\<forall>g \<in> set (goroutines ?s).
         \<exists>timeout. ruleRecoverTimeout (AverageRt latencyBreaker) = Some timeout
           \<and> (0 \<le> sint timeout \<and> sint timeout \<le> 9223372036 \<longrightarrow>
                sint (sleep (fst g)) = 1000000000 * sint timeout)"
    by blast
  then have slept: "sint (sleep ?t) = 1000000000"
    by (simp add: calm_result timeout del: ruleRecoverTimeout.simps)
  from inst g have "execs ?s [Goroutine 0, Goroutine 0, Goroutine 0]
          = \<lparr>shared = fst (recover ?t (shared ?s)), callers = callers ?s,
             goroutines = (goroutines ?s)[0 := (?t, Finished)]\<rparr>"
    by blast
  then have woken: "execs ?s [Goroutine 0, Goroutine 0, Goroutine 0]
       = \<lparr>shared = AverageRt latencyBreaker,
          callers = [Returned True, Returned True, Returned False],
          goroutines = [(?t, Finished)]\<rparr>"
    by (simp add: calm_result runTask_def recoverTask_def latencyBreaker_restored)
  show ?thesis
    using cb calm_result timeout slept woken
    by (simp add: latencyBreaker_fields)
qed

section \<open>The error count strategy\<close>

lemma count_9_admits:
  "errorCount_TryPass (qps 0 0 9 0) countBreaker
     = (True, countBreaker, [ReadQPS 7 MetricEventError])"
  by (simp add: errorCount_TryPass_closed errorCount_judge_def countBreaker_def
        newErrorCountCircuitBreakerWithMetric_def newBreakerWithMetric_def countRule_def
        qps_def reading_def rates_def f64_of_int64_10 num_lt)

lemma count_10_trips:
  "errorCount_TryPass (qps 0 0 10 0) countBreaker
     = (False, countBreaker\<lparr>cut := True\<rparr>,
        [ReadQPS 7 MetricEventError, CutCompareAndSet False True True,
         Go (RecoverTask (time_Second * 1) False)])"
  by (simp add: errorCount_TryPass_closed errorCount_judge_def countBreaker_def
        newErrorCountCircuitBreakerWithMetric_def newBreakerWithMetric_def countRule_def
        qps_def reading_def rates_def f64_of_int64_10 num_lt)

text \<open>
  Claim C7.  On a closed breaker with a rule and a resolved metric source, the count
  strategy admits if and only if the error rate is below the threshold, and otherwise
  trips: it returns false, opens the breaker and starts the recovery goroutine.  The
  error rate is the only thing it reads, so no minimum of requests is asked for.  With
  the threshold 10, an error rate of 9 is admitted and an error rate of 10 trips.
\<close>

theorem errorCount_decision:
  "(\<not> cut b \<and> rule b = Some r \<and> metric b = Some m \<longrightarrow>
      (fst (errorCount_TryPass w b)
         \<longleftrightarrow> f64_lt (GetQPS w m MetricEventError) (f64_of_int64 (errorCountRule.Threshold r)))
    \<and> (f64_lt (GetQPS w m MetricEventError) (f64_of_int64 (errorCountRule.Threshold r)) \<longrightarrow>
         errorCount_TryPass w b = (True, b, [ReadQPS m MetricEventError]))
    \<and> (\<not> f64_lt (GetQPS w m MetricEventError) (f64_of_int64 (errorCountRule.Threshold r)) \<longrightarrow>
         errorCount_TryPass w b
           = (False, b\<lparr>cut := True\<rparr>,
              [ReadQPS m MetricEventError, CutCompareAndSet False True True,
               Go (RecoverTask (time_Second * RecoverTimeout r) False)])))
   \<and> errorCount_TryPass (qps 0 0 9 0) countBreaker
       = (True, countBreaker, [ReadQPS 7 MetricEventError])
   \<and> errorCount_TryPass (qps 0 0 10 0) countBreaker
       = (False, countBreaker\<lparr>cut := True\<rparr>,
          [ReadQPS 7 MetricEventError, CutCompareAndSet False True True,
           Go (RecoverTask (time_Second * 1) False)])"
  by (intro conjI count_9_admits count_10_trips)
     (simp add: errorCount_TryPass_closed errorCount_judge_def)

theorem errorCount_decision_witness:
  "\<not> cut countBreaker \<and> rule countBreaker = Some countRule \<and> metric countBreaker = Some 7
   \<and> f64_lt (GetQPS (qps 0 0 3 0) 7 MetricEventError)
        (f64_of_int64 (errorCountRule.Threshold countRule))
   \<and> errorCount_TryPass (qps 0 0 3 0) countBreaker
       = (True, countBreaker, [ReadQPS 7 MetricEventError])
   \<and> \<not> f64_lt (GetQPS (qps 0 0 12 0) 7 MetricEventError)
          (f64_of_int64 (errorCountRule.Threshold countRule))
   \<and> errorCount_TryPass (qps 0 0 12 0) countBreaker
       = (False, countBreaker\<lparr>cut := True\<rparr>,
          [ReadQPS 7 MetricEventError, CutCompareAndSet False True True,
           Go (RecoverTask (time_Second * 1) False)])"
  using errorCount_decision [of countBreaker countRule 7 "qps 0 0 3 0"]
    errorCount_decision [of countBreaker countRule 7 "qps 0 0 12 0"]
  by (simp add: countBreaker_fields qps_def reading_def rates_def countRule_def
        f64_of_int64_10 num_lt)

section \<open>Failing open\<close>

lemma TryPass_nil_rule:
  "\<not> isOpen cb \<Longrightarrow> ruleIsNil cb \<Longrightarrow> TryPass w cb = (True, cb, [])"
  by (cases cb)
     (simp_all add: averageRt_TryPass_def errorRatio_TryPass_def errorCount_TryPass_def)

lemma TryPass_unresolved:
  assumes "\<not> isOpen cb" and "metricSource cb = None" and "ruleResource cb = Some res"
    and "GetResourceNode w res = None"
  shows "TryPass w cb
           = (True, cb, [CallGetResourceNode res, LogErrorf ''Resource(%s)'s stat node is nil.'' [res]])"
  using assms
  by (cases cb)
     (auto simp: averageRt_TryPass_def errorRatio_TryPass_def errorCount_TryPass_def
        resolveMetric_unresolved)

lemma TryPass_looks_up:
  assumes "\<not> isOpen cb" and "metricSource cb = None" and "ruleResource cb = Some res"
  shows "\<exists>es'. snd (snd (TryPass w cb)) = CallGetResourceNode res # es'"
proof (cases cb)
  case (AverageRt b)
  with assms obtain r where r: "rule b = Some r" "Resource r = res" "\<not> cut b" "metric b = None"
    by auto
  show ?thesis
    using resolveMetric_looks_up [OF r(4), where w = w and name = "''averageRtCircuitBreaker''" and r = r] r AverageRt
    by (auto simp: averageRt_TryPass_def split: sum.splits prod.splits bool.splits)
next
  case (ErrorRatio b)
  with assms obtain r where r: "rule b = Some r" "Resource r = res" "\<not> cut b" "metric b = None"
    by auto
  show ?thesis
    using resolveMetric_looks_up [OF r(4), where w = w and name = "''errorRatioCircuitBreaker''" and r = r] r ErrorRatio
    by (auto simp: errorRatio_TryPass_def split: sum.splits prod.splits bool.splits)
next
  case (ErrorCount b)
  with assms obtain r where r: "rule b = Some r" "Resource r = res" "\<not> cut b" "metric b = None"
    by auto
  show ?thesis
    using resolveMetric_looks_up [OF r(4), where w = w and name = "''errorCountCircuitBreaker''" and r = r] r ErrorCount
    by (auto simp: errorCount_TryPass_def split: sum.splits prod.splits bool.splits)
qed

lemma averageRt_TryPass_metric:
  "\<not> cut b \<Longrightarrow> rule b = Some r \<Longrightarrow> GetResourceNode w (Resource r) = Some nd \<Longrightarrow>
     metric (fst (snd (averageRt_TryPass w b))) \<noteq> None"
  by (auto simp: averageRt_TryPass_def resolveMetric_def Let_def
           split: option.splits sum.splits prod.splits bool.splits if_splits
           dest!: trip_fields averageRt_judge_fields)

lemma errorRatio_TryPass_metric:
  "\<not> cut b \<Longrightarrow> rule b = Some r \<Longrightarrow> GetResourceNode w (Resource r) = Some nd \<Longrightarrow>
     metric (fst (snd (errorRatio_TryPass w b))) \<noteq> None"
  by (auto simp: errorRatio_TryPass_def resolveMetric_def Let_def
           split: option.splits sum.splits prod.splits bool.splits if_splits
           dest!: trip_fields)

lemma errorCount_TryPass_metric:
  "\<not> cut b \<Longrightarrow> rule b = Some r \<Longrightarrow> GetResourceNode w (Resource r) = Some nd \<Longrightarrow>
     metric (fst (snd (errorCount_TryPass w b))) \<noteq> None"
  by (auto simp: errorCount_TryPass_def resolveMetric_def Let_def
           split: option.splits sum.splits prod.splits bool.splits if_splits
           dest!: trip_fields)

lemma TryPass_resolves:
  assumes "\<not> isOpen cb" and "ruleResource cb = Some res" and "GetResourceNode w res = Some nd"
  shows "metricSource (fst (snd (TryPass w cb))) \<noteq> None"
proof (cases cb)
  case (AverageRt b)
  with assms obtain r where r: "rule b = Some r" "Resource r = res" "\<not> cut b"
    by auto
  show ?thesis
    using averageRt_TryPass_metric [OF r(3) r(1), of w nd] r(2) assms(3) AverageRt
    by (auto split: prod.splits)
next
  case (ErrorRatio b)
  with assms obtain r where r: "rule b = Some r" "Resource r = res" "\<not> cut b"
    by auto
  show ?thesis
    using errorRatio_TryPass_metric [OF r(3) r(1), of w nd] r(2) assms(3) ErrorRatio
    by (auto split: prod.splits)
next
  case (ErrorCount b)
  with assms obtain r where r: "rule b = Some r" "Resource r = res" "\<not> cut b"
    by auto
  show ?thesis
    using errorCount_TryPass_metric [OF r(3) r(1), of w nd] r(2) assms(3) ErrorCount
    by (auto split: prod.splits)
qed

text \<open>
  Claim C8.  A call on a closed breaker whose rule is nil returns true and does nothing
  else.  A call on a closed breaker whose metric source is unresolved and whose stat node
  is not found logs, returns true and leaves the breaker as it was, the metric source
  still unresolved: nothing is remembered of the failure, so the next call looks the node
  up again first, and resolves the metric source if the node is there by then.
\<close>

theorem degraded_data_fails_open:
  "(\<not> isOpen cb \<and> ruleIsNil cb \<longrightarrow> TryPass w cb = (True, cb, []))
   \<and> (\<not> isOpen cb \<and> metricSource cb = None \<and> ruleResource cb = Some res
        \<and> GetResourceNode w res = None \<longrightarrow>
        TryPass w cb
          = (True, cb, [CallGetResourceNode res, LogErrorf ''Resource(%s)'s stat node is nil.'' [res]])
        \<and> (let cb1 = fst (snd (TryPass w cb))
           in metricSource cb1 = None
              \<and> (\<exists>es'. snd (snd (TryPass w1 cb1)) = CallGetResourceNode res # es')
              \<and> (GetResourceNode w1 res = Some nd \<longrightarrow>
                   metricSource (fst (snd (TryPass w1 cb1))) \<noteq> None)))"
proof (intro conjI impI)
  assume "\<not> isOpen cb \<and> ruleIsNil cb"
  then show "TryPass w cb = (True, cb, [])"
    by (simp add: TryPass_nil_rule)
next
  assume h: "\<not> isOpen cb \<and> metricSource cb = None \<and> ruleResource cb = Some res
             \<and> GetResourceNode w res = None"
  then show stay: "TryPass w cb
          = (True, cb, [CallGetResourceNode res, LogErrorf ''Resource(%s)'s stat node is nil.'' [res]])"
    by (simp add: TryPass_unresolved)
  have "\<exists>es'. snd (snd (TryPass w1 cb)) = CallGetResourceNode res # es'"
    using h by (intro TryPass_looks_up) simp_all
  moreover have "GetResourceNode w1 res = Some nd \<Longrightarrow>
                   metricSource (fst (snd (TryPass w1 cb))) \<noteq> None"
    using h by (intro TryPass_resolves) simp_all
  ultimately show "let cb1 = fst (snd (TryPass w cb))
           in metricSource cb1 = None
              \<and> (\<exists>es'. snd (snd (TryPass w1 cb1)) = CallGetResourceNode res # es')
              \<and> (GetResourceNode w1 res = Some nd \<longrightarrow>
                   metricSource (fst (snd (TryPass w1 cb1))) \<noteq> None)"
    using h unfolding stay Let_def fst_conv snd_conv by blast
qed

theorem degraded_data_fails_open_witness:
  "\<not> isOpen (ErrorCount (newErrorCountCircuitBreakerWithMetric None (Some 7)))
   \<and> ruleIsNil (ErrorCount (newErrorCountCircuitBreakerWithMetric None (Some 7)))
   \<and> TryPass quiet (ErrorCount (newErrorCountCircuitBreakerWithMetric None (Some 7)))
       = (True, ErrorCount (newErrorCountCircuitBreakerWithMetric None (Some 7)), [])
   \<and> \<not> isOpen (AverageRt (newAverageRtCircuitBreakerWithMetric (Some latencyRule) None))
   \<and> metricSource (AverageRt (newAverageRtCircuitBreakerWithMetric (Some latencyRule) None)) = None
   \<and> ruleResource (AverageRt (newAverageRtCircuitBreakerWithMetric (Some latencyRule) None))
       = Some ''abc''
   \<and> GetResourceNode unresolved ''abc'' = None
   \<and> GetResourceNode quiet ''abc'' = Some 1
   \<and> TryPass unresolved (AverageRt (newAverageRtCircuitBreakerWithMetric (Some latencyRule) None))
       = (True, AverageRt (newAverageRtCircuitBreakerWithMetric (Some latencyRule) None),
          [CallGetResourceNode ''abc'', LogErrorf ''Resource(%s)'s stat node is nil.'' [''abc'']])
   \<and> metricSource (fst (snd (TryPass quiet
         (AverageRt (newAverageRtCircuitBreakerWithMetric (Some latencyRule) None))))) \<noteq> None"
proof -
  let ?nil = "ErrorCount (newErrorCountCircuitBreakerWithMetric None (Some 7))"
  let ?cold = "AverageRt (newAverageRtCircuitBreakerWithMetric (Some latencyRule) None)"
  have nil: "\<not> isOpen ?nil \<and> ruleIsNil ?nil"
    by (simp add: newErrorCountCircuitBreakerWithMetric_def newBreakerWithMetric_def)
  have cold: "\<not> isOpen ?cold \<and> metricSource ?cold = None \<and> ruleResource ?cold = Some ''abc''
              \<and> GetResourceNode unresolved ''abc'' = None"
    by (simp add: newAverageRtCircuitBreakerWithMetric_def newBreakerWithMetric_def
          latencyRule_def unresolved_def reading_def)
  have warm: "GetResourceNode quiet ''abc'' = Some 1"
    by (simp add: quiet_def reading_def)
  from nil
    degraded_data_fails_open [where cb = ?nil and w = quiet]
  have 1: "TryPass quiet ?nil = (True, ?nil, [])"
    by blast
  from cold warm
    degraded_data_fails_open
      [where cb = ?cold and res = "''abc''" and w = unresolved and ?w1.0 = quiet and nd = 1]
  have 2: "TryPass unresolved ?cold
             = (True, ?cold, [CallGetResourceNode ''abc'',
                              LogErrorf ''Resource(%s)'s stat node is nil.'' [''abc'']])
           \<and> metricSource (fst (snd (TryPass quiet (fst (snd (TryPass unresolved ?cold)))))) \<noteq> None"
    unfolding Let_def by blast
  then have 3: "metricSource (fst (snd (TryPass quiet ?cold))) \<noteq> None"
    by (metis fst_conv snd_conv)
  show ?thesis
    using nil cold warm 1 2 3 by blast
qed

section \<open>The rule of a breaker\<close>

lemma averageRt_TryPass_rule:
  "rule (fst (snd (averageRt_TryPass w b))) = rule b"
  by (auto simp: averageRt_TryPass_def split: option.splits sum.splits prod.splits bool.splits
           dest!: resolveMetric_Inr trip_fields averageRt_judge_fields)

lemma errorRatio_TryPass_rule:
  "rule (fst (snd (errorRatio_TryPass w b))) = rule b"
  by (auto simp: errorRatio_TryPass_def split: option.splits sum.splits prod.splits bool.splits
           dest!: resolveMetric_Inr trip_fields)

lemma errorCount_TryPass_rule:
  "rule (fst (snd (errorCount_TryPass w b))) = rule b"
  by (auto simp: errorCount_TryPass_def split: option.splits sum.splits prod.splits bool.splits
           dest!: resolveMetric_Inr trip_fields)

lemma runTask_rule: "rule (fst (runTask t b)) = rule b"
  by (simp add: runTask_def)

lemma act_getRule: "CircuitBreaker_getRule (act cb a) = CircuitBreaker_getRule cb"
proof (cases a)
  case (Call w)
  then show ?thesis
    by (cases cb)
       (simp_all add: getRule_def split: prod.splits,
        (metis averageRt_TryPass_rule errorRatio_TryPass_rule errorCount_TryPass_rule fst_conv snd_conv)+)
next
  case (Wake t)
  then show ?thesis
    by (cases cb)
       (simp_all add: getRule_def split: prod.splits, (metis runTask_rule fst_conv)+)
qed

text \<open>
  Claim C9.  Whatever calls and recoveries a breaker goes through, \<open>getRule\<close> returns
  afterwards what it returned before: no operation writes the rule, so any two
  \<open>getRule\<close> calls in the life of a breaker return the same rule.
\<close>

theorem getRule_constant:
  "CircuitBreaker_getRule (run cb as) = CircuitBreaker_getRule cb"
  unfolding run_def
  by (induction as arbitrary: cb) (simp_all add: act_getRule)

section \<open>No completion and many errors\<close>

text \<open>
  Claim C10.  On a closed breaker with a rule and a resolved metric source, when the
  completion rate is zero (the zero of a rate, whose sign bit is clear), the total is at
  least \<open>MinRequestAmount\<close> and the error rate, not negative as a rate is, is at least
  \<open>MinRequestAmount\<close>, neither guard fires: the error rate is divided by zero, the
  quotient is the positive infinity or a NaN, which is below no threshold whatever the
  rule's threshold is, and the call trips: it returns false, opens the breaker and starts
  the recovery goroutine.
\<close>

theorem zero_completions_trip:
  assumes "\<not> cut b" and "rule b = Some r" and "metric b = Some m"
    and "GetQPS w m MetricEventComplete = Finite False 0"
    and "f64_le (f64_of_int64 (MinRequestAmount r))
           (f64_add (GetQPS w m MetricEventPass) (GetQPS w m MetricEventBlock))"
    and "f64_le (f64_of_int64 (MinRequestAmount r)) (GetQPS w m MetricEventError)"
    and "f64_le (Finite False 0) (GetQPS w m MetricEventError)"
  shows "errorRatio_TryPass w b
           = (False, b\<lparr>cut := True\<rparr>,
              qpsReads m @ [Divide (GetQPS w m MetricEventError) (Finite False 0),
                         CutCompareAndSet False True True,
                         Go (RecoverTask (time_Second * RecoverTimeout r) False)])
         \<and> \<not> is_finite (f64_div (GetQPS w m MetricEventError) (Finite False 0))
         \<and> \<not> f64_lt (f64_div (GetQPS w m MetricEventError) (Finite False 0))
                (errorRatioRule.Threshold r)"
proof -
  let ?err = "GetQPS w m MetricEventError"
  have total: "\<not> f64_lt (f64_add (GetQPS w m MetricEventPass) (GetQPS w m MetricEventBlock))
                 (f64_of_int64 (MinRequestAmount r))"
    using assms(5) by (rule f64_le_not_lt)
  have guard: "\<not> f64_lt ?err (f64_of_int64 (MinRequestAmount r))"
    using assms(6) by (rule f64_le_not_lt)
  have ratio: "f64_div ?err (Finite False 0) = NaN \<or> f64_div ?err (Finite False 0) = Infinity False"
    using assms(7) by (rule div_by_zero_nonneg)
  then have nonfinite: "\<not> is_finite (f64_div ?err (Finite False 0))"
    by (auto simp: is_finite_def)
  have above: "\<not> f64_lt (f64_div ?err (Finite False 0)) (errorRatioRule.Threshold r)"
    using ratio by (cases "errorRatioRule.Threshold r") auto
  show ?thesis
    using total guard nonfinite above assms(4)
    by (simp add: errorRatio_TryPass_closed [OF assms(1-3)] errorRatio_judge_def qpsReads_def Let_def)
qed

theorem zero_completions_trip_witness:
  "\<not> cut ratioBreaker \<and> rule ratioBreaker = Some ratioRule \<and> metric ratioBreaker = Some 7
   \<and> GetQPS (qps 10 0 5 0) 7 MetricEventComplete = Finite False 0
   \<and> f64_le (f64_of_int64 (MinRequestAmount ratioRule))
        (f64_add (GetQPS (qps 10 0 5 0) 7 MetricEventPass) (GetQPS (qps 10 0 5 0) 7 MetricEventBlock))
   \<and> f64_le (f64_of_int64 (MinRequestAmount ratioRule)) (GetQPS (qps 10 0 5 0) 7 MetricEventError)
   \<and> f64_le (Finite False 0) (GetQPS (qps 10 0 5 0) 7 MetricEventError)
   \<and> errorRatio_TryPass (qps 10 0 5 0) ratioBreaker
       = (False, ratioBreaker\<lparr>cut := True\<rparr>,
          qpsReads 7 @ [Divide (num 5) (Finite False 0), CutCompareAndSet False True True,
                     Go (RecoverTask (time_Second * 1) False)])
   \<and> f64_div (num 5) (Finite False 0) = Infinity False"
proof -
  have h: "\<not> cut ratioBreaker" "rule ratioBreaker = Some ratioRule" "metric ratioBreaker = Some 7"
    "GetQPS (qps 10 0 5 0) 7 MetricEventComplete = Finite False 0"
    "f64_le (f64_of_int64 (MinRequestAmount ratioRule))
        (f64_add (GetQPS (qps 10 0 5 0) 7 MetricEventPass) (GetQPS (qps 10 0 5 0) 7 MetricEventBlock))"
    "f64_le (f64_of_int64 (MinRequestAmount ratioRule)) (GetQPS (qps 10 0 5 0) 7 MetricEventError)"
    "f64_le (Finite False 0) (GetQPS (qps 10 0 5 0) 7 MetricEventError)"
    by (simp_all add: ratioBreaker_fields qps_def reading_def rates_def ratioRule_def
          add_10_0 f64_of_int64_5 num_le num_0 zero_le_num)
  show ?thesis
    using h zero_completions_trip [OF h]
    by (simp add: qps_def reading_def rates_def ratioRule_def num_0 div_5_0)
qed

end
